theory Spec2Isabelle
  imports Main
begin

section \<open>Data model of \<open>src/index.ts\<close>\<close>

text \<open>
  The middleware is generic in the context type \<open>T\<close> and the resolved data type \<open>D\<close>;
  \<open>parent\<close> and \<open>args\<close> are \<open>any\<close>, \<open>info\<close> is a \<open>GraphQLResolveInfo\<close>, and a thrown
  value is whatever the resolver or a hook throws. Each of them is a type variable here:
  \<open>'c\<close> (the caller's own fields of the context), \<open>'d\<close> (resolved data), \<open>'a\<close> (parent and
  arguments), \<open>'i\<close> (resolve info), \<open>'e\<close> (thrown values), \<open>'t\<close> (the tracer object) and
  \<open>'s\<close> (a span object).
\<close>

text \<open>\<open>TraceOptions\<close> of the tracing library; only its \<open>name\<close> is used by this file.\<close>

record TraceOptions =
  spanName :: string

text \<open>\<open>interface IMiddlewareOptions\<close>. The field is read through \<open>||\<close>, so it may be unset.\<close>

record IMiddlewareOptions =
  rootSpanOptions :: "TraceOptions option"

text \<open>\<open>defaultOptions\<close> (lines 40-44).\<close>

definition defaultOptions :: IMiddlewareOptions where
  "defaultOptions = \<lparr>rootSpanOptions = Some \<lparr>spanName = ''graphqlRequest''\<rparr>\<rparr>"

text \<open>
  The object stored under \<open>context.tracing\<close>: it is created empty (line 87) and its two
  properties are assigned one after the other (lines 88 and 95).
\<close>

record ('t, 's) tracingHandle =
  tracer :: "'t option"
  rootSpan :: "'s option"

text \<open>
  The per-request context: the caller's own fields and the \<open>tracing\<close> property the
  middleware injects. The property is absent (\<open>None\<close>) until line 87 runs, and any code
  holding the context may reassign or delete it.
\<close>

record ('c, 't, 's) requestContext =
  user :: 'c
  tracing :: "('t, 's) tracingHandle option"

text \<open>\<open>interface IHookFnContext\<close>, the \<open>data\<close> object first.\<close>

record ('d, 'a, 'i) hookData =
  resolvedData :: "'d option"
  args :: 'a
  parent :: 'a
  info :: 'i

text \<open>
  The \<open>context\<close> property of the record is a reference to the one mutable context object
  of the request, so it is not a field here: a hook receives the current context as state
  and hands back the context it leaves behind. The other properties are plain values.
\<close>

record ('s, 'd, 'a, 'i, 'e) IHookFnContext =
  rootSpan :: 's
  data :: "('d, 'a, 'i) hookData"
  err :: "'e option"

text \<open>
  Observable steps of one invocation, in the order in which they happen. A hook is named
  by the key it is registered under and its position in that array.
\<close>

datatype ('s, 'd, 'a, 'i, 'e) event =
    HookCall string nat "('s, 'd, 'a, 'i, 'e) IHookFnContext"
  | HookReturn string nat
  | HookThrow string nat 'e
  | SpanStart 's
  | SpanEnd 's
  | ResolveCall 'a 'a 'i
  | ResolveReturn 'd
  | ResolveThrow 'e
  | PResolve 'd
  | PReject 'e

text \<open>The promise returned to the caller (\<open>new Promise\<close>, line 90).\<close>

datatype ('d, 'e) promise = Pending | Fulfilled 'd | Rejected 'e

text \<open>
  The state of one invocation: the context object, the promise handed to the caller, and
  the log of steps taken so far, each with the context as it was at that step.
\<close>

record ('c, 't, 's, 'd, 'a, 'i, 'e) state =
  ctx :: "('c, 't, 's) requestContext"
  promise :: "('d, 'e) promise"
  trace :: "(('s, 'd, 'a, 'i, 'e) event \<times> ('c, 't, 's) requestContext) list"

text \<open>
  \<open>type IMiddlewareHookFn\<close>: a hook may mutate the context and either returns (its promise
  fulfils, \<open>Inr ()\<close>) or throws (its promise rejects, \<open>Inl e\<close>). Hooks and the resolver are
  taken to settle; one that never does leaves the invocation suspended at that \<open>await\<close>.
\<close>

type_synonym ('c, 't, 's, 'd, 'a, 'i, 'e) IMiddlewareHookFn =
  "('s, 'd, 'a, 'i, 'e) IHookFnContext \<Rightarrow> ('c, 't, 's) requestContext
     \<Rightarrow> ('e + unit) \<times> ('c, 't, 's) requestContext"

text \<open>\<open>interface IMiddlewareHooks\<close>: an object indexed by string keys.\<close>

type_synonym ('c, 't, 's, 'd, 'a, 'i, 'e) IMiddlewareHooks =
  "string \<rightharpoonup> ('c, 't, 's, 'd, 'a, 'i, 'e) IMiddlewareHookFn list"

text \<open>The wrapped resolver \<open>resolve(parent, args, context, info)\<close>.\<close>

type_synonym ('c, 't, 's, 'd, 'a, 'i, 'e) resolver =
  "'a \<Rightarrow> 'a \<Rightarrow> ('c, 't, 's) requestContext \<Rightarrow> 'i \<Rightarrow> ('e + 'd) \<times> ('c, 't, 's) requestContext"

section \<open>Operations\<close>

definition emit ::
  "('s, 'd, 'a, 'i, 'e) event \<Rightarrow> ('c, 't, 's, 'd, 'a, 'i, 'e) state
     \<Rightarrow> ('c, 't, 's, 'd, 'a, 'i, 'e) state" where
  "emit ev s = s\<lparr>trace := trace s @ [(ev, ctx s)]\<rparr>"

definition labels ::
  "('c, 't, 's, 'd, 'a, 'i, 'e) state \<Rightarrow> ('s, 'd, 'a, 'i, 'e) event list" where
  "labels s = map fst (trace s)"

text \<open>
  \<open>span.start()\<close> and \<open>span.end()\<close>, as called by this file: each call is a step of the log.
  Both belong to the tracing library and are taken to return.
\<close>

definition spanStart ::
  "'s \<Rightarrow> ('c, 't, 's, 'd, 'a, 'i, 'e) state \<Rightarrow> ('c, 't, 's, 'd, 'a, 'i, 'e) state" where
  "spanStart span s = emit (SpanStart span) s"

definition spanEnd ::
  "'s \<Rightarrow> ('c, 't, 's, 'd, 'a, 'i, 'e) state \<Rightarrow> ('c, 't, 's, 'd, 'a, 'i, 'e) state" where
  "spanEnd span s = emit (SpanEnd span) s"

text \<open>
  \<open>pResolve\<close> and \<open>pReject\<close>, the two functions of the promise executor: a promise that
  is already settled ignores them.
\<close>

definition pResolve ::
  "'d \<Rightarrow> ('c, 't, 's, 'd, 'a, 'i, 'e) state \<Rightarrow> ('c, 't, 's, 'd, 'a, 'i, 'e) state" where
  "pResolve d s =
     (let s1 = emit (PResolve d) s in
      case promise s1 of Pending \<Rightarrow> s1\<lparr>promise := Fulfilled d\<rparr> | _ \<Rightarrow> s1)"

definition pReject ::
  "'e \<Rightarrow> ('c, 't, 's, 'd, 'a, 'i, 'e) state \<Rightarrow> ('c, 't, 's, 'd, 'a, 'i, 'e) state" where
  "pReject e s =
     (let s1 = emit (PReject e) s in
      case promise s1 of Pending \<Rightarrow> s1\<lparr>promise := Rejected e\<rparr> | _ \<Rightarrow> s1)"

text \<open>
  The loop of \<open>runHook\<close> (lines 62-64): each hook function is applied to the same record
  and awaited before the next one is taken; a rejection leaves the loop at once. The
  counter is the position of the hook in the array.
\<close>

fun runHookFns ::
  "string \<Rightarrow> nat \<Rightarrow> ('c, 't, 's, 'd, 'a, 'i, 'e) IMiddlewareHookFn list
     \<Rightarrow> ('s, 'd, 'a, 'i, 'e) IHookFnContext \<Rightarrow> ('c, 't, 's, 'd, 'a, 'i, 'e) state
     \<Rightarrow> ('e + unit) \<times> ('c, 't, 's, 'd, 'a, 'i, 'e) state" where
  "runHookFns name i [] hookFnContext s = (Inr (), s)"
| "runHookFns name i (hookFn # rest) hookFnContext s =
     (let s1 = emit (HookCall name i hookFnContext) s in
      case hookFn hookFnContext (ctx s1) of
        (Inl e, c) \<Rightarrow> (Inl e, emit (HookThrow name i e) (s1\<lparr>ctx := c\<rparr>))
      | (Inr _, c) \<Rightarrow>
          runHookFns name (Suc i) rest hookFnContext (emit (HookReturn name i) (s1\<lparr>ctx := c\<rparr>)))"

text \<open>\<open>runHook\<close> (lines 51-65): a key with no array is skipped.\<close>

definition runHook ::
  "('c, 't, 's, 'd, 'a, 'i, 'e) IMiddlewareHooks \<Rightarrow> string
     \<Rightarrow> ('s, 'd, 'a, 'i, 'e) IHookFnContext \<Rightarrow> ('c, 't, 's, 'd, 'a, 'i, 'e) state
     \<Rightarrow> ('e + unit) \<times> ('c, 't, 's, 'd, 'a, 'i, 'e) state" where
  "runHook hooks name hookFnContext s =
     (case hooks name of
        None \<Rightarrow> (Inr (), s)
      | Some hook \<Rightarrow> runHookFns name 0 hook hookFnContext s)"

text \<open>
  The \<open>catch\<close> block (lines 118-129). The dispatch of \<open>resolveError\<close> is awaited with no
  handler around it: when it rejects, the two statements after it are not reached and
  the rejection is the outcome of the enclosing async function.
\<close>

definition catchBlock ::
  "('c, 't, 's, 'd, 'a, 'i, 'e) IMiddlewareHooks \<Rightarrow> 's \<Rightarrow> 'a \<Rightarrow> 'a \<Rightarrow> 'i \<Rightarrow> 'e
     \<Rightarrow> ('c, 't, 's, 'd, 'a, 'i, 'e) state
     \<Rightarrow> ('e + unit) \<times> ('c, 't, 's, 'd, 'a, 'i, 'e) state" where
  "catchBlock hooks span parent' args' info' err' s =
     (case runHook hooks ''resolveError''
             \<lparr>rootSpan = span,
              data = \<lparr>resolvedData = None, args = args', parent = parent', info = info'\<rparr>,
              err = Some err'\<rparr> s of
        (Inl e, s1) \<Rightarrow> (Inl e, s1)
      | (Inr _, s1) \<Rightarrow> (Inr (), pReject err' (spanEnd span s1)))"

text \<open>
  The \<open>try\<close> block (lines 105-117): whatever is thrown by the resolver or by the dispatch
  of \<open>postResolve\<close> is caught by the block above.
\<close>

definition tryBlock ::
  "('c, 't, 's, 'd, 'a, 'i, 'e) IMiddlewareHooks \<Rightarrow> ('c, 't, 's, 'd, 'a, 'i, 'e) resolver
     \<Rightarrow> 's \<Rightarrow> 'a \<Rightarrow> 'a \<Rightarrow> 'i \<Rightarrow> ('c, 't, 's, 'd, 'a, 'i, 'e) state
     \<Rightarrow> ('e + unit) \<times> ('c, 't, 's, 'd, 'a, 'i, 'e) state" where
  "tryBlock hooks resolve span parent' args' info' s =
     (let s1 = spanStart span s;
          s2 = emit (ResolveCall parent' args' info') s1 in
      case resolve parent' args' (ctx s2) info' of
        (Inl err', c) \<Rightarrow>
          catchBlock hooks span parent' args' info' err'
            (emit (ResolveThrow err') (s2\<lparr>ctx := c\<rparr>))
      | (Inr data', c) \<Rightarrow>
          (case runHook hooks ''postResolve''
                  \<lparr>rootSpan = span,
                   data = \<lparr>resolvedData = Some data', args = args', parent = parent',
                           info = info'\<rparr>,
                   err = None\<rparr>
                  (emit (ResolveReturn data') (s2\<lparr>ctx := c\<rparr>)) of
             (Inl err', s3) \<Rightarrow> catchBlock hooks span parent' args' info' err' s3
           | (Inr _, s3) \<Rightarrow> (Inr (), pResolve data' (spanEnd span s3))))"

text \<open>
  The async callback handed to \<open>tracer.startRootSpan\<close> (lines 93-130). The dispatch of
  \<open>preResolve\<close> stands before the \<open>try\<close>: when it rejects, the callback ends there.
  Line 95 assigns a property of \<open>context.tracing\<close>, which line 87 has just created.
\<close>

definition spanCallback ::
  "('c, 't, 's, 'd, 'a, 'i, 'e) IMiddlewareHooks \<Rightarrow> ('c, 't, 's, 'd, 'a, 'i, 'e) resolver
     \<Rightarrow> 'a \<Rightarrow> 'a \<Rightarrow> 'i \<Rightarrow> 's \<Rightarrow> ('c, 't, 's, 'd, 'a, 'i, 'e) state
     \<Rightarrow> ('e + unit) \<times> ('c, 't, 's, 'd, 'a, 'i, 'e) state" where
  "spanCallback hooks resolve parent' args' info' span s =
     (let s0 = s\<lparr>ctx := (ctx s)\<lparr>tracing :=
                  map_option (\<lambda>h. h\<lparr>tracingHandle.rootSpan := Some span\<rparr>) (tracing (ctx s))\<rparr>\<rparr> in
      case runHook hooks ''preResolve''
             \<lparr>rootSpan = span,
              data = \<lparr>resolvedData = None, args = args', parent = parent', info = info'\<rparr>,
              err = None\<rparr> s0 of
        (Inl e, s1) \<Rightarrow> (Inl e, s1)
      | (Inr _, s1) \<Rightarrow> tryBlock hooks resolve span parent' args' info' s1)"

text \<open>\<open>middlewareOptions.rootSpanOptions || defaultOptions.rootSpanOptions\<close> (line 92).\<close>

definition spanOptions :: "IMiddlewareOptions \<Rightarrow> TraceOptions" where
  "spanOptions middlewareOptions =
     (case rootSpanOptions middlewareOptions of
        Some options \<Rightarrow> options
      | None \<Rightarrow> the (rootSpanOptions defaultOptions))"

text \<open>
  Modelled from the spec: \<open>tracer.startRootSpan(options, body)\<close> of the tracing library,
  which is not part of this repository. By the spec's tracer boundary it creates a span
  for the options and calls \<open>body\<close> with it; \<open>newSpan\<close> stands for the span the tracer
  creates, and the value \<open>body\<close> returns is handed back. What the tracer itself does to
  the span is not part of the model.
\<close>

definition startRootSpan :: "(TraceOptions \<Rightarrow> 's) \<Rightarrow> TraceOptions \<Rightarrow> ('s \<Rightarrow> 'r) \<Rightarrow> 'r" where
  "startRootSpan newSpan options body = body (newSpan options)"

text \<open>
  The middleware function returned by \<open>graphqlJaegerMiddleware\<close> (lines 85-133), for the
  tracer the factory created. The result is the final state, whose \<open>promise\<close> is what
  the caller holds, together with the outcome of the async callback: nothing awaits
  that outcome, so \<open>Inl e\<close> there is a rejection nobody handles.
\<close>

definition graphqlJaegerMiddleware ::
  "'t \<Rightarrow> (TraceOptions \<Rightarrow> 's) \<Rightarrow> IMiddlewareOptions
     \<Rightarrow> ('c, 't, 's, 'd, 'a, 'i, 'e) IMiddlewareHooks
     \<Rightarrow> ('c, 't, 's, 'd, 'a, 'i, 'e) resolver
     \<Rightarrow> 'a \<Rightarrow> 'a \<Rightarrow> ('c, 't, 's) requestContext \<Rightarrow> 'i
     \<Rightarrow> ('e + unit) \<times> ('c, 't, 's, 'd, 'a, 'i, 'e) state" where
  "graphqlJaegerMiddleware tracer' newSpan middlewareOptions hooks resolve
       parent' args' context' info' =
     (let context1 = context'\<lparr>tracing := Some \<lparr>tracer = None, rootSpan = None\<rparr>\<rparr>;
          context2 = context1\<lparr>tracing :=
                       map_option (\<lambda>h. h\<lparr>tracer := Some tracer'\<rparr>) (tracing context1)\<rparr>
      in startRootSpan newSpan (spanOptions middlewareOptions)
           (\<lambda>span. spanCallback hooks resolve parent' args' info' span
                      \<lparr>ctx = context2, promise = Pending, trace = []\<rparr>))"

section \<open>Vocabulary of the properties\<close>

text \<open>The span of an invocation: the one the tracer creates for the configured options.\<close>

definition spanOf :: "(TraceOptions \<Rightarrow> 's) \<Rightarrow> IMiddlewareOptions \<Rightarrow> 's" where
  "spanOf newSpan middlewareOptions = newSpan (spanOptions middlewareOptions)"

text \<open>The context as the middleware leaves it once the span is attached (line 95).\<close>

definition attached :: "'t \<Rightarrow> 's \<Rightarrow> ('c, 't, 's) requestContext \<Rightarrow> ('c, 't, 's) requestContext" where
  "attached tracer' span context' =
     context'\<lparr>tracing := Some \<lparr>tracer = Some tracer', rootSpan = Some span\<rparr>\<rparr>"

text \<open>The records built at lines 98-102, 110-114 and 120-125.\<close>

definition preRecord :: "'s \<Rightarrow> 'a \<Rightarrow> 'a \<Rightarrow> 'i \<Rightarrow> ('s, 'd, 'a, 'i, 'e) IHookFnContext" where
  "preRecord span parent' args' info' =
     \<lparr>rootSpan = span,
      data = \<lparr>resolvedData = None, args = args', parent = parent', info = info'\<rparr>,
      err = None\<rparr>"

definition postRecord ::
  "'s \<Rightarrow> 'a \<Rightarrow> 'a \<Rightarrow> 'i \<Rightarrow> 'd \<Rightarrow> ('s, 'd, 'a, 'i, 'e) IHookFnContext" where
  "postRecord span parent' args' info' data' =
     \<lparr>rootSpan = span,
      data = \<lparr>resolvedData = Some data', args = args', parent = parent', info = info'\<rparr>,
      err = None\<rparr>"

definition errorRecord ::
  "'s \<Rightarrow> 'a \<Rightarrow> 'a \<Rightarrow> 'i \<Rightarrow> 'e \<Rightarrow> ('s, 'd, 'a, 'i, 'e) IHookFnContext" where
  "errorRecord span parent' args' info' err' =
     \<lparr>rootSpan = span,
      data = \<lparr>resolvedData = None, args = args', parent = parent', info = info'\<rparr>,
      err = Some err'\<rparr>"

text \<open>The hooks registered under a key, and how many there are.\<close>

definition hooksOf ::
  "('c, 't, 's, 'd, 'a, 'i, 'e) IMiddlewareHooks \<Rightarrow> string
     \<Rightarrow> ('c, 't, 's, 'd, 'a, 'i, 'e) IMiddlewareHookFn list" where
  "hooksOf hooks name = (case hooks name of None \<Rightarrow> [] | Some hook \<Rightarrow> hook)"

definition hookCount :: "('c, 't, 's, 'd, 'a, 'i, 'e) IMiddlewareHooks \<Rightarrow> string \<Rightarrow> nat" where
  "hookCount hooks name = length (hooksOf hooks name)"

text \<open>
  The steps of a dispatch in which the hooks at positions \<open>i, ..., i + k - 1\<close> were called
  and returned, one after the other, and which then either was over (\<open>Inr\<close>) or called the
  hook at position \<open>i + k\<close>, which threw \<open>e\<close> (\<open>Inl e\<close>).
\<close>

definition hookStepsFrom ::
  "string \<Rightarrow> nat \<Rightarrow> ('s, 'd, 'a, 'i, 'e) IHookFnContext \<Rightarrow> nat \<Rightarrow> 'e + unit
     \<Rightarrow> ('s, 'd, 'a, 'i, 'e) event list" where
  "hookStepsFrom name i hookFnContext k res =
     concat (map (\<lambda>j. [HookCall name j hookFnContext, HookReturn name j]) [i..<i + k]) @
     (case res of
        Inl e \<Rightarrow> [HookCall name (i + k) hookFnContext, HookThrow name (i + k) e]
      | Inr _ \<Rightarrow> [])"

definition hookSteps ::
  "string \<Rightarrow> ('s, 'd, 'a, 'i, 'e) IHookFnContext \<Rightarrow> nat \<Rightarrow> 'e + unit
     \<Rightarrow> ('s, 'd, 'a, 'i, 'e) event list" where
  "hookSteps name hookFnContext k res = hookStepsFrom name 0 hookFnContext k res"

text \<open>
  The steps of the \<open>catch\<close> block for the caught value \<open>e\<close>: a dispatch of \<open>resolveError\<close>
  in which \<open>m\<close> hooks returned and, when the dispatch was over, \<open>span.end()\<close> and
  \<open>pReject(e)\<close>; and what the caller's promise holds after them.
\<close>

definition catchSteps ::
  "'s \<Rightarrow> 'a \<Rightarrow> 'a \<Rightarrow> 'i \<Rightarrow> 'e \<Rightarrow> nat \<Rightarrow> 'e + unit \<Rightarrow> ('s, 'd, 'a, 'i, 'e) event list" where
  "catchSteps span parent' args' info' e m res =
     hookSteps ''resolveError'' (errorRecord span parent' args' info' e) m res @
     (case res of Inr _ \<Rightarrow> [SpanEnd span, PReject e] | Inl _ \<Rightarrow> [])"

definition catchPromise :: "'e \<Rightarrow> 'e + unit \<Rightarrow> ('d, 'e) promise" where
  "catchPromise e res = (case res of Inr _ \<Rightarrow> Rejected e | Inl _ \<Rightarrow> Pending)"

text \<open>The context a run of hooks leaves behind when each of them returns.\<close>

definition afterHooks ::
  "('c, 't, 's, 'd, 'a, 'i, 'e) IMiddlewareHookFn list \<Rightarrow> ('s, 'd, 'a, 'i, 'e) IHookFnContext
     \<Rightarrow> ('c, 't, 's) requestContext \<Rightarrow> ('c, 't, 's) requestContext" where
  "afterHooks fs hookFnContext c = foldl (\<lambda>c' f. snd (f hookFnContext c')) c fs"

text \<open>
  The context the resolver is called on when every \<open>preResolve\<close> hook returns: the context
  with the handle attached, after those hooks.
\<close>

definition resolverContext ::
  "'t \<Rightarrow> 's \<Rightarrow> ('c, 't, 's, 'd, 'a, 'i, 'e) IMiddlewareHooks \<Rightarrow> 'a \<Rightarrow> 'a \<Rightarrow> 'i
     \<Rightarrow> ('c, 't, 's) requestContext \<Rightarrow> ('c, 't, 's) requestContext" where
  "resolverContext tracer' span hooks parent' args' info' context' =
     afterHooks (hooksOf hooks ''preResolve'') (preRecord span parent' args' info')
       (attached tracer' span context')"

text \<open>Classifying steps.\<close>

fun isHookThrow :: "string \<Rightarrow> ('s, 'd, 'a, 'i, 'e) event \<Rightarrow> bool" where
  "isHookThrow name (HookThrow n j e) = (n = name)"
| "isHookThrow name _ = False"

fun isHookStep :: "string \<Rightarrow> ('s, 'd, 'a, 'i, 'e) event \<Rightarrow> bool" where
  "isHookStep name (HookCall n j hookFnContext) = (n = name)"
| "isHookStep name (HookReturn n j) = (n = name)"
| "isHookStep name (HookThrow n j e) = (n = name)"
| "isHookStep name _ = False"

fun isResolveCall :: "('s, 'd, 'a, 'i, 'e) event \<Rightarrow> bool" where
  "isResolveCall (ResolveCall p a i) = True"
| "isResolveCall _ = False"

fun isSpanStart :: "('s, 'd, 'a, 'i, 'e) event \<Rightarrow> bool" where
  "isSpanStart (SpanStart sp) = True"
| "isSpanStart _ = False"

fun isSpanEnd :: "('s, 'd, 'a, 'i, 'e) event \<Rightarrow> bool" where
  "isSpanEnd (SpanEnd sp) = True"
| "isSpanEnd _ = False"

definition hookThrew :: "string \<Rightarrow> ('s, 'd, 'a, 'i, 'e) event list \<Rightarrow> bool" where
  "hookThrew name evs = list_ex (isHookThrow name) evs"

text \<open>
  The handle \<open>h\<close> is what \<open>context.tracing\<close> holds now and what it held at every step taken
  so far.
\<close>

definition handleVisible ::
  "('t, 's) tracingHandle option \<Rightarrow> ('c, 't, 's, 'd, 'a, 'i, 'e) state \<Rightarrow> bool" where
  "handleVisible h s \<longleftrightarrow>
     tracing (ctx s) = h \<and> list_all (\<lambda>step. tracing (snd step) = h) (trace s)"

text \<open>What a promise that mirrors the resolver's outcome holds.\<close>

fun settled :: "'e + 'd \<Rightarrow> ('d, 'e) promise" where
  "settled (Inr d) = Fulfilled d"
| "settled (Inl e) = Rejected e"

section \<open>Sample invocations\<close>

text \<open>
  Concrete hooks and resolvers, on a context that holds a counter: a hook that increments
  the counter, a hook that throws, a hook that deletes \<open>context.tracing\<close>, a resolver that
  resolves to \<open>"ok"\<close> and one that throws \<open>"E"\<close>.
\<close>

type_synonym sampleHookFn = "(nat, string, string, string, nat, nat, string) IMiddlewareHookFn"

type_synonym sampleResolver = "(nat, string, string, string, nat, nat, string) resolver"

definition increment :: sampleHookFn where
  "increment hookFnContext c = (Inr (), c\<lparr>user := Suc (user c)\<rparr>)"

definition failing :: "string \<Rightarrow> sampleHookFn" where
  "failing e hookFnContext c = (Inl e, c)"

definition detach :: sampleHookFn where
  "detach hookFnContext c = (Inr (), c\<lparr>tracing := None\<rparr>)"

definition resolveOk :: sampleResolver where
  "resolveOk parent' args' c info' = (Inr ''ok'', c)"

definition resolveFail :: sampleResolver where
  "resolveFail parent' args' c info' = (Inl ''E'', c)"

text \<open>
  An invocation with parent 1, arguments 2, resolve info 3 and a fresh context, by a
  middleware whose options leave the span name unset; the tracer names a span after its
  options.
\<close>

definition sampleContext :: "(nat, string, string) requestContext" where
  "sampleContext = \<lparr>user = 0, tracing = None\<rparr>"

definition sample ::
  "(nat, string, string, string, nat, nat, string) IMiddlewareHooks \<Rightarrow> sampleResolver
     \<Rightarrow> (string + unit) \<times> (nat, string, string, string, nat, nat, string) state" where
  "sample hooks resolve =
     graphqlJaegerMiddleware ''tracer'' spanName \<lparr>rootSpanOptions = None\<rparr> hooks resolve
       1 2 sampleContext 3"

section \<open>Auxiliary facts\<close>

lemma ctx_emit: "ctx (emit ev s) = ctx s" by (simp add: emit_def)
lemma promise_emit: "promise (emit ev s) = promise s" by (simp add: emit_def)
lemma trace_emit: "trace (emit ev s) = trace s @ [(ev, ctx s)]" by (simp add: emit_def)
lemma labels_emit: "labels (emit ev s) = labels s @ [ev]" by (simp add: emit_def labels_def)
lemma labels_ctx_update: "labels (s\<lparr>ctx := c\<rparr>) = labels s" by (simp add: labels_def)
lemma labels_promise_update: "labels (s\<lparr>promise := p\<rparr>) = labels s" by (simp add: labels_def)

lemmas emit_simps = ctx_emit promise_emit trace_emit labels_emit labels_ctx_update labels_promise_update

lemma hookStepsFrom_zero_Inr: "hookStepsFrom name i hc 0 (Inr u) = []"
  by (simp add: hookStepsFrom_def)

lemma hookStepsFrom_zero_Inl:
  "hookStepsFrom name i hc 0 (Inl e) = [HookCall name i hc, HookThrow name i e]"
  by (simp add: hookStepsFrom_def)

lemma hookStepsFrom_Suc:
  "hookStepsFrom name i hc (Suc k) res =
     HookCall name i hc # HookReturn name i # hookStepsFrom name (Suc i) hc k res"
  by (cases res) (simp_all add: hookStepsFrom_def upt_conv_Cons)

lemma runHookFns_steps:
  "runHookFns name i fs hc s = (res, s') \<Longrightarrow>
     \<exists>k\<le>length fs. labels s' = labels s @ hookStepsFrom name i hc k res \<and>
       ((\<exists>u. res = Inr u) \<longleftrightarrow> k = length fs) \<and> promise s' = promise s"
proof (induction fs arbitrary: i s)
  case Nil
  then show ?case by (auto simp: hookStepsFrom_zero_Inr)
next
  case (Cons f fs)
  obtain r c where fr: "f hc (ctx s) = (r, c)" by (cases "f hc (ctx s)")
  show ?case
  proof (cases r)
    case (Inl e)
    with Cons.prems fr have "res = Inl e" "s' = emit (HookThrow name i e) ((emit (HookCall name i hc) s)\<lparr>ctx := c\<rparr>)"
      by (auto simp: emit_simps)
    then have "labels s' = labels s @ hookStepsFrom name i hc 0 res \<and> promise s' = promise s"
      by (simp add: emit_simps hookStepsFrom_zero_Inl)
    with \<open>res = Inl e\<close> show ?thesis by (intro exI[of _ 0]) auto
  next
    case (Inr u)
    let ?s2 = "emit (HookReturn name i) ((emit (HookCall name i hc) s)\<lparr>ctx := c\<rparr>)"
    from Cons.prems fr Inr have "runHookFns name (Suc i) fs hc ?s2 = (res, s')"
      by (simp add: emit_simps)
    from Cons.IH[OF this] obtain k where k: "k \<le> length fs"
      "labels s' = labels ?s2 @ hookStepsFrom name (Suc i) hc k res"
      "(\<exists>u. res = Inr u) \<longleftrightarrow> k = length fs" "promise s' = promise ?s2" by blast
    then have "labels s' = labels s @ hookStepsFrom name i hc (Suc k) res \<and> promise s' = promise s"
      by (simp add: emit_simps hookStepsFrom_Suc)
    with k show ?thesis by (intro exI[of _ "Suc k"]) auto
  qed
qed

lemma runHook_steps:
  "runHook hooks name hc s = (res, s') \<Longrightarrow>
     \<exists>k\<le>hookCount hooks name. labels s' = labels s @ hookSteps name hc k res \<and>
       ((\<exists>u. res = Inr u) \<longleftrightarrow> k = hookCount hooks name) \<and> promise s' = promise s"
proof (cases "hooks name")
  case None
  assume "runHook hooks name hc s = (res, s')"
  with None have "res = Inr ()" "s' = s" by (auto simp: runHook_def)
  with None show ?thesis
    by (auto simp: hookCount_def hooksOf_def hookSteps_def hookStepsFrom_zero_Inr)
next
  case (Some fs)
  assume "runHook hooks name hc s = (res, s')"
  with Some have "runHookFns name 0 fs hc s = (res, s')" by (simp add: runHook_def)
  from runHookFns_steps[OF this] Some show ?thesis
    by (simp add: hookCount_def hooksOf_def hookSteps_def)
qed

lemma runHookFns_trace: "runHookFns name i fs hc s = (res, s') \<Longrightarrow> \<exists>t. trace s' = trace s @ t"
proof (induction fs arbitrary: i s)
  case Nil
  then show ?case by simp
next
  case (Cons f fs)
  obtain r c where fr: "f hc (ctx s) = (r, c)" by (cases "f hc (ctx s)")
  show ?case
  proof (cases r)
    case (Inl e)
    with Cons.prems fr show ?thesis by (auto simp: emit_simps)
  next
    case (Inr u)
    let ?s2 = "emit (HookReturn name i) ((emit (HookCall name i hc) s)\<lparr>ctx := c\<rparr>)"
    from Cons.prems fr Inr have "runHookFns name (Suc i) fs hc ?s2 = (res, s')"
      by (simp add: emit_simps)
    from Cons.IH[OF this] show ?thesis by (auto simp: emit_simps)
  qed
qed

lemma runHook_trace: "runHook hooks name hc s = (res, s') \<Longrightarrow> \<exists>t. trace s' = trace s @ t"
  by (cases "hooks name") (auto simp: runHook_def dest: runHookFns_trace)

lemma catchBlock_path:
  assumes "catchBlock hooks span p a i e s = (res, s')"
  shows "\<exists>m\<le>hookCount hooks ''resolveError''.
           ((\<exists>u. res = Inr u) \<longleftrightarrow> m = hookCount hooks ''resolveError'') \<and>
           labels s' = labels s @ catchSteps span p a i e m res \<and>
           promise s' = (case res of
                           Inr _ \<Rightarrow> (case promise s of Pending \<Rightarrow> Rejected e | q \<Rightarrow> q)
                         | Inl _ \<Rightarrow> promise s) \<and>
           (\<exists>t. trace s' = trace s @ t)"
proof -
  obtain r s1 where run: "runHook hooks ''resolveError'' (errorRecord span p a i e) s = (r, s1)"
    by (cases "runHook hooks ''resolveError'' (errorRecord span p a i e) s")
  from runHook_steps[OF run] obtain m where m: "m \<le> hookCount hooks ''resolveError''"
    "labels s1 = labels s @ hookSteps ''resolveError'' (errorRecord span p a i e) m r"
    "(\<exists>u. r = Inr u) \<longleftrightarrow> m = hookCount hooks ''resolveError''" "promise s1 = promise s"
    by blast
  from runHook_trace[OF run] obtain t where t: "trace s1 = trace s @ t" by blast
  show ?thesis
  proof (cases r)
    case (Inl e')
    with assms run have "res = Inl e'" "s' = s1"
      by (auto simp: catchBlock_def errorRecord_def)
    with m t Inl show ?thesis by (intro exI[of _ m]) (auto simp: catchSteps_def)
  next
    case (Inr u)
    with assms run have rs: "res = Inr ()" "s' = pReject e (spanEnd span s1)"
      by (auto simp: catchBlock_def errorRecord_def)
    have "labels s' = labels s1 @ [SpanEnd span, PReject e]"
      "promise s' = (case promise s1 of Pending \<Rightarrow> Rejected e | q \<Rightarrow> q)"
      "trace s' = trace s1 @ [(SpanEnd span, ctx s1), (PReject e, ctx s1)]"
      unfolding rs by (auto simp: pReject_def spanEnd_def Let_def emit_simps labels_def split: promise.splits)
    with m t Inr rs show ?thesis by (intro exI[of _ m]) (auto simp: catchSteps_def)
  qed
qed

lemma tryBlock_path:
  assumes run: "tryBlock hooks resolve span p a i s = (res, s')" and pend: "promise s = Pending"
  shows "(\<exists>d. fst (resolve p a (ctx s) i) = Inr d \<and> res = Inr () \<and> promise s' = Fulfilled d \<and>
            labels s' = labels s @ [SpanStart span, ResolveCall p a i, ResolveReturn d] @
              hookSteps ''postResolve'' (postRecord span p a i d) (hookCount hooks ''postResolve'') (Inr ()) @
              [SpanEnd span, PResolve d])
       \<or> (\<exists>d h k m. fst (resolve p a (ctx s) i) = Inr d \<and> k < hookCount hooks ''postResolve'' \<and>
            m \<le> hookCount hooks ''resolveError'' \<and>
            ((\<exists>u. res = Inr u) \<longleftrightarrow> m = hookCount hooks ''resolveError'') \<and>
            promise s' = catchPromise h res \<and>
            labels s' = labels s @ [SpanStart span, ResolveCall p a i, ResolveReturn d] @
              hookSteps ''postResolve'' (postRecord span p a i d) k (Inl h) @
              catchSteps span p a i h m res)
       \<or> (\<exists>e m. fst (resolve p a (ctx s) i) = Inl e \<and> m \<le> hookCount hooks ''resolveError'' \<and>
            ((\<exists>u. res = Inr u) \<longleftrightarrow> m = hookCount hooks ''resolveError'') \<and>
            promise s' = catchPromise e res \<and>
            labels s' = labels s @ [SpanStart span, ResolveCall p a i, ResolveThrow e] @
              catchSteps span p a i e m res)"
    and "\<exists>t. trace s' = trace s @ (SpanStart span, ctx s) # (ResolveCall p a i, ctx s) # t"
proof -
  obtain r c where rc: "resolve p a (ctx s) i = (r, c)" by (cases "resolve p a (ctx s) i")
  let ?s2 = "emit (ResolveCall p a i) (spanStart span s)"
  have s2: "ctx ?s2 = ctx s" "labels ?s2 = labels s @ [SpanStart span, ResolveCall p a i]"
    "promise ?s2 = Pending" "trace ?s2 = trace s @ [(SpanStart span, ctx s), (ResolveCall p a i, ctx s)]"
    by (simp_all add: spanStart_def emit_simps pend)
  have "((\<exists>d. fst (resolve p a (ctx s) i) = Inr d \<and> res = Inr () \<and> promise s' = Fulfilled d \<and>
            labels s' = labels s @ [SpanStart span, ResolveCall p a i, ResolveReturn d] @
              hookSteps ''postResolve'' (postRecord span p a i d) (hookCount hooks ''postResolve'') (Inr ()) @
              [SpanEnd span, PResolve d])
       \<or> (\<exists>d h k m. fst (resolve p a (ctx s) i) = Inr d \<and> k < hookCount hooks ''postResolve'' \<and>
            m \<le> hookCount hooks ''resolveError'' \<and>
            ((\<exists>u. res = Inr u) \<longleftrightarrow> m = hookCount hooks ''resolveError'') \<and>
            promise s' = catchPromise h res \<and>
            labels s' = labels s @ [SpanStart span, ResolveCall p a i, ResolveReturn d] @
              hookSteps ''postResolve'' (postRecord span p a i d) k (Inl h) @
              catchSteps span p a i h m res)
       \<or> (\<exists>e m. fst (resolve p a (ctx s) i) = Inl e \<and> m \<le> hookCount hooks ''resolveError'' \<and>
            ((\<exists>u. res = Inr u) \<longleftrightarrow> m = hookCount hooks ''resolveError'') \<and>
            promise s' = catchPromise e res \<and>
            labels s' = labels s @ [SpanStart span, ResolveCall p a i, ResolveThrow e] @
              catchSteps span p a i e m res))
     \<and> (\<exists>t. trace s' = trace s @ (SpanStart span, ctx s) # (ResolveCall p a i, ctx s) # t)"
  proof (cases r)
    case (Inl e)
    let ?s3 = "emit (ResolveThrow e) (?s2\<lparr>ctx := c\<rparr>)"
    from run rc Inl have "catchBlock hooks span p a i e ?s3 = (res, s')"
      by (simp add: tryBlock_def Let_def s2)
    from catchBlock_path[OF this] obtain m t where m: "m \<le> hookCount hooks ''resolveError''"
      "(\<exists>u. res = Inr u) \<longleftrightarrow> m = hookCount hooks ''resolveError''"
      "labels s' = labels ?s3 @ catchSteps span p a i e m res"
      "promise s' = (case res of Inr _ \<Rightarrow> (case promise ?s3 of Pending \<Rightarrow> Rejected e | q \<Rightarrow> q)
                         | Inl _ \<Rightarrow> promise ?s3)"
      "trace s' = trace ?s3 @ t" by blast
    have "promise s' = catchPromise e res"
      using m(4) by (simp add: emit_simps spanStart_def pend catchPromise_def split: sum.splits)
    moreover have "labels s' = labels s @ [SpanStart span, ResolveCall p a i, ResolveThrow e] @
              catchSteps span p a i e m res"
      using m(3) by (simp add: emit_simps spanStart_def)
    moreover have "\<exists>t. trace s' = trace s @ (SpanStart span, ctx s) # (ResolveCall p a i, ctx s) # t"
      using m(5) by (simp add: emit_simps spanStart_def)
    ultimately show ?thesis using m(1,2) rc Inl by auto
  next
    case (Inr d)
    let ?s3 = "emit (ResolveReturn d) (?s2\<lparr>ctx := c\<rparr>)"
    have s3: "labels ?s3 = labels s @ [SpanStart span, ResolveCall p a i, ResolveReturn d]"
      "promise ?s3 = Pending"
      "trace ?s3 = trace s @ [(SpanStart span, ctx s), (ResolveCall p a i, ctx s), (ResolveReturn d, c)]"
      by (simp_all add: emit_simps spanStart_def pend)
    obtain r2 s4 where post: "runHook hooks ''postResolve'' (postRecord span p a i d) ?s3 = (r2, s4)"
      by (cases "runHook hooks ''postResolve'' (postRecord span p a i d) ?s3")
    from runHook_steps[OF post] obtain k where k: "k \<le> hookCount hooks ''postResolve''"
      "labels s4 = labels ?s3 @ hookSteps ''postResolve'' (postRecord span p a i d) k r2"
      "(\<exists>u. r2 = Inr u) \<longleftrightarrow> k = hookCount hooks ''postResolve''" "promise s4 = promise ?s3"
      by blast
    from runHook_trace[OF post] obtain t4 where t4: "trace s4 = trace ?s3 @ t4" by blast
    show ?thesis
    proof (cases r2)
      case (Inl h)
      from run rc Inr post Inl have "catchBlock hooks span p a i h s4 = (res, s')"
        by (simp add: tryBlock_def Let_def s2 postRecord_def)
      from catchBlock_path[OF this] obtain m t where m: "m \<le> hookCount hooks ''resolveError''"
        "(\<exists>u. res = Inr u) \<longleftrightarrow> m = hookCount hooks ''resolveError''"
        "labels s' = labels s4 @ catchSteps span p a i h m res"
        "promise s' = (case res of Inr _ \<Rightarrow> (case promise s4 of Pending \<Rightarrow> Rejected h | q \<Rightarrow> q)
                         | Inl _ \<Rightarrow> promise s4)"
        "trace s' = trace s4 @ t" by blast
      have "promise s' = catchPromise h res"
        using m(4) k(4) by (simp add: s3 catchPromise_def split: sum.splits)
      moreover have "labels s' = labels s @ [SpanStart span, ResolveCall p a i, ResolveReturn d] @
              hookSteps ''postResolve'' (postRecord span p a i d) k (Inl h) @ catchSteps span p a i h m res"
        using m(3) k(2) Inl by (simp add: s3)
      moreover have "\<exists>t. trace s' = trace s @ (SpanStart span, ctx s) # (ResolveCall p a i, ctx s) # t"
        using m(5) t4 by (simp add: s3)
      moreover have "k < hookCount hooks ''postResolve''" using k(1,3) Inl by auto
      ultimately show ?thesis using m(1,2) rc Inr by auto
    next
      case (Inr u)
      from run rc \<open>r = Inr d\<close> post Inr have rs: "res = Inr ()" "s' = pResolve d (spanEnd span s4)"
        by (auto simp: tryBlock_def Let_def s2 postRecord_def)
      have "labels s' = labels s4 @ [SpanEnd span, PResolve d]"
        "promise s' = Fulfilled d"
        "trace s' = trace s4 @ [(SpanEnd span, ctx s4), (PResolve d, ctx s4)]"
        unfolding rs using k(4) by (auto simp: pResolve_def spanEnd_def spanStart_def pend Let_def emit_simps labels_def)
      moreover have "k = hookCount hooks ''postResolve''" using k(3) Inr by auto
      ultimately show ?thesis using rc \<open>r = Inr d\<close> rs k(2) Inr t4 by (auto simp: s3)
    qed
  qed
  then show "(\<exists>d. fst (resolve p a (ctx s) i) = Inr d \<and> res = Inr () \<and> promise s' = Fulfilled d \<and>
            labels s' = labels s @ [SpanStart span, ResolveCall p a i, ResolveReturn d] @
              hookSteps ''postResolve'' (postRecord span p a i d) (hookCount hooks ''postResolve'') (Inr ()) @
              [SpanEnd span, PResolve d])
       \<or> (\<exists>d h k m. fst (resolve p a (ctx s) i) = Inr d \<and> k < hookCount hooks ''postResolve'' \<and>
            m \<le> hookCount hooks ''resolveError'' \<and>
            ((\<exists>u. res = Inr u) \<longleftrightarrow> m = hookCount hooks ''resolveError'') \<and>
            promise s' = catchPromise h res \<and>
            labels s' = labels s @ [SpanStart span, ResolveCall p a i, ResolveReturn d] @
              hookSteps ''postResolve'' (postRecord span p a i d) k (Inl h) @
              catchSteps span p a i h m res)
       \<or> (\<exists>e m. fst (resolve p a (ctx s) i) = Inl e \<and> m \<le> hookCount hooks ''resolveError'' \<and>
            ((\<exists>u. res = Inr u) \<longleftrightarrow> m = hookCount hooks ''resolveError'') \<and>
            promise s' = catchPromise e res \<and>
            labels s' = labels s @ [SpanStart span, ResolveCall p a i, ResolveThrow e] @
              catchSteps span p a i e m res)"
    and "\<exists>t. trace s' = trace s @ (SpanStart span, ctx s) # (ResolveCall p a i, ctx s) # t"
    by blast+
qed

lemma middleware_unfold:
  "graphqlJaegerMiddleware tracer' newSpan mo hooks resolve p a c i =
     (case runHook hooks ''preResolve'' (preRecord (spanOf newSpan mo) p a i)
             \<lparr>ctx = attached tracer' (spanOf newSpan mo) c, promise = Pending, trace = []\<rparr> of
        (Inl e, s1) \<Rightarrow> (Inl e, s1)
      | (Inr _, s1) \<Rightarrow> tryBlock hooks resolve (spanOf newSpan mo) p a i s1)"
  unfolding graphqlJaegerMiddleware_def startRootSpan_def spanCallback_def Let_def
    spanOf_def attached_def preRecord_def
  by simp

lemma middleware_path:
  assumes run: "graphqlJaegerMiddleware tracer' newSpan mo hooks resolve p a c i = (res, s)"
    and sp: "span = spanOf newSpan mo"
  shows "(\<exists>k e. k < hookCount hooks ''preResolve'' \<and> res = Inl e \<and> promise s = Pending \<and>
            labels s = hookSteps ''preResolve'' (preRecord span p a i) k (Inl e))
       \<or> (\<exists>cp d. (ResolveCall p a i, cp) \<in> set (trace s) \<and> fst (resolve p a cp i) = Inr d \<and>
            res = Inr () \<and> promise s = Fulfilled d \<and>
            labels s =
              hookSteps ''preResolve'' (preRecord span p a i) (hookCount hooks ''preResolve'') (Inr ()) @
              [SpanStart span, ResolveCall p a i, ResolveReturn d] @
              hookSteps ''postResolve'' (postRecord span p a i d) (hookCount hooks ''postResolve'') (Inr ()) @
              [SpanEnd span, PResolve d])
       \<or> (\<exists>cp d h k m. (ResolveCall p a i, cp) \<in> set (trace s) \<and> fst (resolve p a cp i) = Inr d \<and>
            k < hookCount hooks ''postResolve'' \<and> m \<le> hookCount hooks ''resolveError'' \<and>
            ((\<exists>u. res = Inr u) \<longleftrightarrow> m = hookCount hooks ''resolveError'') \<and>
            promise s = catchPromise h res \<and>
            labels s =
              hookSteps ''preResolve'' (preRecord span p a i) (hookCount hooks ''preResolve'') (Inr ()) @
              [SpanStart span, ResolveCall p a i, ResolveReturn d] @
              hookSteps ''postResolve'' (postRecord span p a i d) k (Inl h) @
              catchSteps span p a i h m res)
       \<or> (\<exists>cp e m. (ResolveCall p a i, cp) \<in> set (trace s) \<and> fst (resolve p a cp i) = Inl e \<and>
            m \<le> hookCount hooks ''resolveError'' \<and>
            ((\<exists>u. res = Inr u) \<longleftrightarrow> m = hookCount hooks ''resolveError'') \<and>
            promise s = catchPromise e res \<and>
            labels s =
              hookSteps ''preResolve'' (preRecord span p a i) (hookCount hooks ''preResolve'') (Inr ()) @
              [SpanStart span, ResolveCall p a i, ResolveThrow e] @
              catchSteps span p a i e m res)"
proof -
  let ?s0 = "\<lparr>ctx = attached tracer' span c, promise = Pending, trace = []\<rparr>"
  obtain r s1 where pre: "runHook hooks ''preResolve'' (preRecord span p a i) ?s0 = (r, s1)"
    by (cases "runHook hooks ''preResolve'' (preRecord span p a i) ?s0")
  from runHook_steps[OF pre] obtain k where k: "k \<le> hookCount hooks ''preResolve''"
    "labels s1 = hookSteps ''preResolve'' (preRecord span p a i) k r"
    "(\<exists>u. r = Inr u) \<longleftrightarrow> k = hookCount hooks ''preResolve''" "promise s1 = Pending"
    by (auto simp: labels_def)
  show ?thesis
  proof (cases r)
    case (Inl e)
    with run pre sp have "res = Inl e" "s = s1" by (auto simp: middleware_unfold)
    moreover have "k < hookCount hooks ''preResolve''" using k(1,3) Inl by auto
    ultimately show ?thesis using k(2,4) Inl by blast
  next
    case (Inr u)
    with run pre sp have tb: "tryBlock hooks resolve span p a i s1 = (res, s)"
      by (auto simp: middleware_unfold)
    have kn: "k = hookCount hooks ''preResolve''" using k(3) Inr by auto
    have l1: "labels s1 =
        hookSteps ''preResolve'' (preRecord span p a i) (hookCount hooks ''preResolve'') (Inr ())"
      using k(2) kn Inr by simp
    from tryBlock_path(2)[OF tb k(4)] have mem: "(ResolveCall p a i, ctx s1) \<in> set (trace s)"
      by auto
    from tryBlock_path(1)[OF tb k(4)] mem show ?thesis
      unfolding l1 by (elim disjE exE conjE) (simp, blast)+
  qed
qed

lemma hookStepsFrom_steps: "ev \<in> set (hookStepsFrom name i hc k res) \<Longrightarrow> isHookStep name ev"
  by (auto simp: hookStepsFrom_def split: sum.splits)

lemma hookSteps_steps: "ev \<in> set (hookSteps name hc k res) \<Longrightarrow> isHookStep name ev"
  by (simp add: hookSteps_def hookStepsFrom_steps)

lemma filter_hookSteps:
  assumes "\<And>ev. isHookStep name ev \<Longrightarrow> \<not> P ev"
  shows "filter P (hookSteps name hc k res) = []"
  using assms by (auto simp: filter_empty_conv dest: hookSteps_steps)

lemma isHookStep_not_span: "isHookStep name ev \<Longrightarrow> \<not> isSpanStart ev"
  "isHookStep name ev \<Longrightarrow> \<not> isSpanEnd ev"
  "isHookStep name ev \<Longrightarrow> \<not> isResolveCall ev"
  by (cases ev; simp)+

lemma filter_hookSteps_simps:
  "filter isSpanStart (hookSteps name hc k res) = []"
  "filter isSpanEnd (hookSteps name hc k res) = []"
  "filter isResolveCall (hookSteps name hc k res) = []"
  by (rule filter_hookSteps, erule isHookStep_not_span)+

lemma hookThrew_append: "hookThrew name (xs @ ys) \<longleftrightarrow> hookThrew name xs \<or> hookThrew name ys"
  by (simp add: hookThrew_def)

lemma hookThrew_Cons: "hookThrew name (x # xs) \<longleftrightarrow> isHookThrow name x \<or> hookThrew name xs"
  by (simp add: hookThrew_def)

lemma hookThrew_Nil: "\<not> hookThrew name []"
  by (simp add: hookThrew_def)

lemma hookThrew_hookSteps:
  "hookThrew name' (hookSteps name hc k res) \<longleftrightarrow> name' = name \<and> (\<exists>e. res = Inl e)"
proof -
  have "\<not> list_ex (isHookThrow name')
          (concat (map (\<lambda>j. [HookCall name j hc, HookReturn name j]) [0..<0 + k]))"
    by (auto simp: list_ex_iff)
  then show ?thesis
    by (cases res) (auto simp: hookThrew_def hookSteps_def hookStepsFrom_def)
qed

lemma hookThrew_catchSteps:
  "hookThrew name (catchSteps span p a i e m res) \<longleftrightarrow> name = ''resolveError'' \<and> (\<exists>e'. res = Inl e')"
  by (cases res) (auto simp: catchSteps_def hookThrew_append hookThrew_hookSteps hookThrew_Cons hookThrew_Nil)

lemma filter_catchSteps:
  "filter isSpanStart (catchSteps span p a i e m res) = []"
  "filter isSpanEnd (catchSteps span p a i e m res) = (case res of Inr _ \<Rightarrow> [SpanEnd span] | Inl _ \<Rightarrow> [])"
  "filter isResolveCall (catchSteps span p a i e m res) = []"
  by (cases res; simp add: catchSteps_def filter_hookSteps_simps)+

lemma afterHooks_Cons: "afterHooks (f # fs) hc c = afterHooks fs hc (snd (f hc c))"
  by (simp add: afterHooks_def)

lemma afterHooks_Nil: "afterHooks [] hc c = c"
  by (simp add: afterHooks_def)

lemma runHookFns_ctx:
  "runHookFns name i fs hc s = (res, s') \<Longrightarrow>
     \<exists>k\<le>length fs. labels s' = labels s @ hookStepsFrom name i hc k res \<and>
       (\<forall>j<k. fst ((fs ! j) hc (afterHooks (take j fs) hc (ctx s))) = Inr ()) \<and>
       (case res of
          Inr _ \<Rightarrow> k = length fs \<and> ctx s' = afterHooks fs hc (ctx s)
        | Inl e \<Rightarrow> k < length fs \<and>
            (fs ! k) hc (afterHooks (take k fs) hc (ctx s)) = (Inl e, ctx s'))"
proof (induction fs arbitrary: i s)
  case Nil
  then show ?case by (auto simp: hookStepsFrom_zero_Inr afterHooks_Nil)
next
  case (Cons f fs)
  obtain r c where fr: "f hc (ctx s) = (r, c)" by (cases "f hc (ctx s)")
  show ?case
  proof (cases r)
    case (Inl e)
    with Cons.prems fr have rs: "res = Inl e"
      "s' = emit (HookThrow name i e) ((emit (HookCall name i hc) s)\<lparr>ctx := c\<rparr>)"
      by (auto simp: emit_simps)
    then have "labels s' = labels s @ hookStepsFrom name i hc 0 res" "ctx s' = c"
      by (simp_all add: emit_simps hookStepsFrom_zero_Inl)
    with rs(1) fr Inl show ?thesis
      by (intro exI[of _ 0]) (simp add: afterHooks_Nil)
  next
    case (Inr u)
    let ?s2 = "emit (HookReturn name i) ((emit (HookCall name i hc) s)\<lparr>ctx := c\<rparr>)"
    have c2: "ctx ?s2 = c" by (simp add: emit_simps)
    from Cons.prems fr Inr have "runHookFns name (Suc i) fs hc ?s2 = (res, s')"
      by (simp add: emit_simps)
    from Cons.IH[OF this] obtain k where k: "k \<le> length fs"
      "labels s' = labels ?s2 @ hookStepsFrom name (Suc i) hc k res"
      "\<forall>j<k. fst ((fs ! j) hc (afterHooks (take j fs) hc c)) = Inr ()"
      "case res of
          Inr _ \<Rightarrow> k = length fs \<and> ctx s' = afterHooks fs hc c
        | Inl e \<Rightarrow> k < length fs \<and> (fs ! k) hc (afterHooks (take k fs) hc c) = (Inl e, ctx s')"
      unfolding c2 by blast
    have sc: "snd (f hc (ctx s)) = c" using fr by simp
    have "labels s' = labels s @ hookStepsFrom name i hc (Suc k) res"
      using k(2) by (simp add: emit_simps hookStepsFrom_Suc)
    moreover have "\<forall>j<Suc k. fst (((f # fs) ! j) hc (afterHooks (take j (f # fs)) hc (ctx s))) = Inr ()"
    proof (intro allI impI)
      fix j assume "j < Suc k"
      show "fst (((f # fs) ! j) hc (afterHooks (take j (f # fs)) hc (ctx s))) = Inr ()"
      proof (cases j)
        case 0
        then show ?thesis using fr Inr by (simp add: afterHooks_Nil)
      next
        case (Suc j')
        with \<open>j < Suc k\<close> k(3) show ?thesis by (simp add: afterHooks_Cons sc)
      qed
    qed
    moreover have "case res of
          Inr _ \<Rightarrow> Suc k = length (f # fs) \<and> ctx s' = afterHooks (f # fs) hc (ctx s)
        | Inl e \<Rightarrow> Suc k < length (f # fs) \<and>
            ((f # fs) ! Suc k) hc (afterHooks (take (Suc k) (f # fs)) hc (ctx s)) = (Inl e, ctx s')"
      using k(4) by (simp add: afterHooks_Cons sc split: sum.splits)
    ultimately show ?thesis using k(1) by (intro exI[of _ "Suc k"]) simp
  qed
qed

lemma runHook_none: "hookCount hooks name = 0 \<Longrightarrow> runHook hooks name hc s = (Inr (), s)"
  by (cases "hooks name") (simp_all add: runHook_def hookCount_def hooksOf_def)

lemma middleware_no_hooks:
  assumes "hookCount hooks ''preResolve'' = 0" "hookCount hooks ''postResolve'' = 0"
    "hookCount hooks ''resolveError'' = 0"
  shows "graphqlJaegerMiddleware tracer' newSpan mo hooks resolve p a c i =
    (let span = spanOf newSpan mo;
         s2 = emit (ResolveCall p a i)
                (spanStart span \<lparr>ctx = attached tracer' span c, promise = Pending, trace = []\<rparr>) in
     case resolve p a (attached tracer' span c) i of
       (Inl e, c') \<Rightarrow> (Inr (), pReject e (spanEnd span (emit (ResolveThrow e) (s2\<lparr>ctx := c'\<rparr>))))
     | (Inr d, c') \<Rightarrow> (Inr (), pResolve d (spanEnd span (emit (ResolveReturn d) (s2\<lparr>ctx := c'\<rparr>)))))"
  by (simp add: middleware_unfold tryBlock_def catchBlock_def runHook_none assms Let_def
      spanStart_def emit_simps split: prod.splits sum.splits)

lemma filter_isHookStep_other:
  "name' \<noteq> name \<Longrightarrow> filter (isHookStep name') (hookSteps name hc k res) = []"
proof (rule filter_hookSteps)
  fix ev :: "('a, 'b, 'c, 'd, 'e) event"
  assume "name' \<noteq> name" "isHookStep name ev"
  then show "\<not> isHookStep name' ev" by (cases ev) auto
qed

lemma filter_isHookStep_catchSteps:
  "name' \<noteq> ''resolveError'' \<Longrightarrow> filter (isHookStep name') (catchSteps span p a i e m res) = []"
  by (cases res) (simp_all add: catchSteps_def filter_isHookStep_other)

lemma HookCall_in_hookSteps:
  "HookCall n j hc' \<in> set (hookSteps name hc k res) \<Longrightarrow> n = name \<and> hc' = hc"
  by (auto simp: hookSteps_def hookStepsFrom_def split: sum.splits)

lemma HookCall_in_catchSteps:
  "HookCall n j hc' \<in> set (catchSteps span p a i e m res) \<Longrightarrow>
     n = ''resolveError'' \<and> hc' = errorRecord span p a i e"
  by (cases res) (auto simp: catchSteps_def dest: HookCall_in_hookSteps)

lemma ResolveReturn_notin_hookSteps: "ResolveReturn d \<notin> set (hookSteps name hc k res)"
  by (auto dest: hookSteps_steps)

lemma ResolveReturn_notin_catchSteps: "ResolveReturn d \<notin> set (catchSteps span p a i e m res)"
  by (cases res) (auto simp: catchSteps_def dest: hookSteps_steps)

lemma handleVisible_emit: "handleVisible h s \<Longrightarrow> handleVisible h (emit ev s)"
  by (simp add: handleVisible_def emit_def)

lemma handleVisible_ctx:
  "handleVisible h s \<Longrightarrow> tracing c = h \<Longrightarrow> handleVisible h (s\<lparr>ctx := c\<rparr>)"
  by (simp add: handleVisible_def)

lemma handleVisible_promise: "handleVisible h (s\<lparr>promise := q\<rparr>) = handleVisible h s"
  by (simp add: handleVisible_def)

lemma handleVisible_settle:
  "handleVisible h s \<Longrightarrow> handleVisible h (pResolve d (spanEnd span s))"
  "handleVisible h s \<Longrightarrow> handleVisible h (pReject e (spanEnd span s))"
  by (simp_all add: pResolve_def pReject_def spanEnd_def Let_def handleVisible_emit
      handleVisible_promise split: promise.splits)

lemma runHookFns_handle:
  assumes "\<forall>f\<in>set fs. \<forall>hc cx. tracing (snd (f hc cx)) = tracing cx"
  shows "handleVisible h s \<Longrightarrow> runHookFns name i fs hc s = (res, s') \<Longrightarrow> handleVisible h s'"
  using assms
proof (induction fs arbitrary: i s)
  case Nil
  then show ?case by simp
next
  case (Cons f fs)
  obtain r c where fr: "f hc (ctx s) = (r, c)" by (cases "f hc (ctx s)")
  from Cons.prems(3) have "tracing (snd (f hc (ctx s))) = tracing (ctx s)" by simp
  with fr Cons.prems(1) have c: "tracing c = h" by (simp add: handleVisible_def)
  have s1: "handleVisible h ((emit (HookCall name i hc) s)\<lparr>ctx := c\<rparr>)"
    using Cons.prems(1) c by (simp add: handleVisible_emit handleVisible_ctx)
  show ?case
  proof (cases r)
    case (Inl e)
    with Cons.prems(2) fr have "s' = emit (HookThrow name i e) ((emit (HookCall name i hc) s)\<lparr>ctx := c\<rparr>)"
      by (auto simp: emit_simps)
    with s1 show ?thesis by (simp add: handleVisible_emit)
  next
    case (Inr u)
    let ?s2 = "emit (HookReturn name i) ((emit (HookCall name i hc) s)\<lparr>ctx := c\<rparr>)"
    from Cons.prems(2) fr Inr have a: "runHookFns name (Suc i) fs hc ?s2 = (res, s')"
      by (simp add: emit_simps)
    have b: "handleVisible h ?s2" using s1 by (rule handleVisible_emit)
    have c': "\<forall>f\<in>set fs. \<forall>hc cx. tracing (snd (f hc cx)) = tracing cx"
      using Cons.prems(3) by simp
    show ?thesis by (rule Cons.IH[OF b a c'])
  qed
qed

lemma runHook_handle:
  assumes "\<forall>f\<in>set (hooksOf hooks name). \<forall>hc cx. tracing (snd (f hc cx)) = tracing cx"
    and "handleVisible h s" and "runHook hooks name hc s = (res, s')"
  shows "handleVisible h s'"
proof (cases "hooks name")
  case None
  with assms show ?thesis by (simp add: runHook_def)
next
  case (Some fs)
  with assms(1) have "\<forall>f\<in>set fs. \<forall>hc cx. tracing (snd (f hc cx)) = tracing cx"
    by (simp add: hooksOf_def)
  moreover from Some assms(3) have "runHookFns name 0 fs hc s = (res, s')"
    by (simp add: runHook_def)
  ultimately show ?thesis by (rule runHookFns_handle[OF _ assms(2)])
qed

lemma catchBlock_handle:
  assumes "\<forall>f\<in>set (hooksOf hooks ''resolveError''). \<forall>hc cx. tracing (snd (f hc cx)) = tracing cx"
    and "handleVisible h s" and "catchBlock hooks span p a i e s = (res, s')"
  shows "handleVisible h s'"
proof -
  obtain r s1 where run: "runHook hooks ''resolveError'' (errorRecord span p a i e) s = (r, s1)"
    by (cases "runHook hooks ''resolveError'' (errorRecord span p a i e) s")
  from runHook_handle[OF assms(1,2) run] have "handleVisible h s1" .
  with assms(3) run show ?thesis
    by (cases r) (auto simp: catchBlock_def errorRecord_def handleVisible_settle)
qed

lemma tryBlock_handle:
  assumes post: "\<forall>f\<in>set (hooksOf hooks ''postResolve''). \<forall>hc cx. tracing (snd (f hc cx)) = tracing cx"
    and err: "\<forall>f\<in>set (hooksOf hooks ''resolveError''). \<forall>hc cx. tracing (snd (f hc cx)) = tracing cx"
    and rsv: "\<forall>p a cx i. tracing (snd (resolve p a cx i)) = tracing cx"
    and vis: "handleVisible h s" and run: "tryBlock hooks resolve span p a i s = (res, s')"
  shows "handleVisible h s'"
proof -
  obtain r c where rc: "resolve p a (ctx s) i = (r, c)" by (cases "resolve p a (ctx s) i")
  from rsv have "tracing (snd (resolve p a (ctx s) i)) = tracing (ctx s)" by blast
  with rc vis have c: "tracing c = h" by (simp add: handleVisible_def)
  let ?s2 = "(emit (ResolveCall p a i) (spanStart span s))\<lparr>ctx := c\<rparr>"
  have s2: "handleVisible h ?s2"
    using vis c by (simp add: spanStart_def handleVisible_emit handleVisible_ctx)
  show ?thesis
  proof (cases r)
    case (Inl e)
    with run rc have "catchBlock hooks span p a i e (emit (ResolveThrow e) ?s2) = (res, s')"
      by (simp add: tryBlock_def Let_def spanStart_def emit_simps)
    from catchBlock_handle[OF err handleVisible_emit[OF s2] this] show ?thesis .
  next
    case (Inr d)
    obtain r2 s4 where pr: "runHook hooks ''postResolve'' (postRecord span p a i d)
        (emit (ResolveReturn d) ?s2) = (r2, s4)"
      by (cases "runHook hooks ''postResolve'' (postRecord span p a i d) (emit (ResolveReturn d) ?s2)")
    from runHook_handle[OF post handleVisible_emit[OF s2] pr] have s4: "handleVisible h s4" .
    show ?thesis
    proof (cases r2)
      case (Inl e)
      with run rc Inr pr have "catchBlock hooks span p a i e s4 = (res, s')"
        by (simp add: tryBlock_def Let_def spanStart_def emit_simps postRecord_def)
      from catchBlock_handle[OF err s4 this] show ?thesis .
    next
      case (Inr u)
      with run rc \<open>r = Inr d\<close> pr have "s' = pResolve d (spanEnd span s4)"
        by (auto simp: tryBlock_def Let_def spanStart_def emit_simps postRecord_def)
      with s4 show ?thesis by (simp add: handleVisible_settle)
    qed
  qed
qed

lemma ResolveThrow_notin_hookSteps: "ResolveThrow e \<notin> set (hookSteps name hc k res)"
  by (auto dest: hookSteps_steps)

lemma ResolveThrow_notin_catchSteps: "ResolveThrow e' \<notin> set (catchSteps span p a i e m res)"
  by (cases res) (auto simp: catchSteps_def dest: hookSteps_steps)

lemma HookThrow_in_hookSteps:
  "HookThrow n j e \<in> set (hookSteps name hc k res) \<Longrightarrow> n = name \<and> j = k \<and> res = Inl e"
  by (auto simp: hookSteps_def hookStepsFrom_def split: sum.splits)

lemma HookThrow_in_catchSteps:
  "HookThrow n j e' \<in> set (catchSteps span p a i e m res) \<Longrightarrow> n = ''resolveError''"
  by (cases res) (auto simp: catchSteps_def dest: HookThrow_in_hookSteps)

lemma runHook_applied:
  assumes "runHook hooks name hc s = (res, s')"
  shows "\<exists>k\<le>hookCount hooks name.
           labels s' = labels s @ hookSteps name hc k res \<and>
           (\<forall>j<k. fst ((hooksOf hooks name ! j) hc
                         (afterHooks (take j (hooksOf hooks name)) hc (ctx s))) = Inr ()) \<and>
           (case res of
              Inr _ \<Rightarrow> k = hookCount hooks name \<and> ctx s' = afterHooks (hooksOf hooks name) hc (ctx s)
            | Inl e \<Rightarrow> k < hookCount hooks name \<and>
                (hooksOf hooks name ! k) hc (afterHooks (take k (hooksOf hooks name)) hc (ctx s)) =
                  (Inl e, ctx s'))"
proof (cases "hooks name")
  case None
  with assms have "res = Inr ()" "s' = s" by (auto simp: runHook_def)
  with None show ?thesis
    by (auto simp: hookCount_def hooksOf_def hookSteps_def hookStepsFrom_zero_Inr afterHooks_Nil)
next
  case (Some fs)
  with assms have run: "runHookFns name 0 fs hc s = (res, s')" by (simp add: runHook_def)
  from Some have eq: "hooksOf hooks name = fs"
    by (simp add: hooksOf_def)
  show ?thesis
    unfolding hookSteps_def hookCount_def eq by (rule runHookFns_ctx[OF run])
qed

lemma runHook_promise: "runHook hooks name hc s = (res, s') \<Longrightarrow> promise s' = promise s"
  by (drule runHook_steps) blast

lemma middleware_pre_threw:
  assumes run: "graphqlJaegerMiddleware tracer' newSpan mo hooks resolve p a c i = (res, s)"
    and pre: "hookThrew ''preResolve'' (labels s)"
  shows "\<exists>k e. k < hookCount hooks ''preResolve'' \<and> res = Inl e \<and> promise s = Pending \<and>
           labels s = hookSteps ''preResolve'' (preRecord (spanOf newSpan mo) p a i) k (Inl e)"
  using middleware_path[OF run refl] pre
  by (elim disjE exE conjE)
     (auto simp: hookThrew_append hookThrew_Cons hookThrew_Nil hookThrew_hookSteps
        hookThrew_catchSteps)

lemma middleware_called:
  assumes run: "graphqlJaegerMiddleware tracer' newSpan mo hooks resolve p a c i = (res, s)"
    and pre: "\<not> hookThrew ''preResolve'' (labels s)"
  shows "\<exists>s1. ctx s1 = resolverContext tracer' (spanOf newSpan mo) hooks p a i c \<and>
           promise s1 = Pending \<and>
           labels s1 = hookSteps ''preResolve'' (preRecord (spanOf newSpan mo) p a i)
                         (hookCount hooks ''preResolve'') (Inr ()) \<and>
           tryBlock hooks resolve (spanOf newSpan mo) p a i s1 = (res, s)"
proof -
  let ?span = "spanOf newSpan mo"
  let ?s0 = "\<lparr>ctx = attached tracer' ?span c, promise = Pending, trace = []\<rparr>"
  obtain r s1 where pr: "runHook hooks ''preResolve'' (preRecord ?span p a i) ?s0 = (r, s1)"
    by (cases "runHook hooks ''preResolve'' (preRecord ?span p a i) ?s0")
  have c0: "ctx ?s0 = attached tracer' ?span c" and l0: "labels ?s0 = []"
    by (simp_all add: labels_def)
  from runHook_applied[OF pr] obtain k where k: "k \<le> hookCount hooks ''preResolve''"
    "labels s1 = hookSteps ''preResolve'' (preRecord ?span p a i) k r"
    "case r of
       Inr _ \<Rightarrow> k = hookCount hooks ''preResolve'' \<and>
         ctx s1 = afterHooks (hooksOf hooks ''preResolve'') (preRecord ?span p a i) (attached tracer' ?span c)
     | Inl e \<Rightarrow> k < hookCount hooks ''preResolve'' \<and>
         (hooksOf hooks ''preResolve'' ! k) (preRecord ?span p a i)
           (afterHooks (take k (hooksOf hooks ''preResolve'')) (preRecord ?span p a i)
              (attached tracer' ?span c)) = (Inl e, ctx s1)"
    unfolding c0 l0 by auto
  from runHook_promise[OF pr] have pend: "promise s1 = Pending" by simp
  show ?thesis
  proof (cases r)
    case (Inl e)
    with run pr have "s = s1" by (auto simp: middleware_unfold)
    with k(2) Inl pre show ?thesis by (simp add: hookThrew_hookSteps)
  next
    case (Inr u)
    with run pr have tb: "tryBlock hooks resolve ?span p a i s1 = (res, s)"
      by (auto simp: middleware_unfold)
    from k(3) Inr have "k = hookCount hooks ''preResolve''"
      "ctx s1 = resolverContext tracer' ?span hooks p a i c"
      by (simp_all add: resolverContext_def)
    with k(2) Inr pend tb show ?thesis by (intro exI[of _ s1]) simp
  qed
qed

lemma tryBlock_resolved:
  assumes tb: "tryBlock hooks resolve span p a i s = (res, s')" and pend: "promise s = Pending"
    and rc: "resolve p a (ctx s) i = (Inr d, cr)"
  shows "\<exists>k r rest.
           labels s' = labels s @ [SpanStart span, ResolveCall p a i, ResolveReturn d] @
             hookSteps ''postResolve'' (postRecord span p a i d) k r @ rest \<and>
           (\<forall>j<k. fst ((hooksOf hooks ''postResolve'' ! j) (postRecord span p a i d)
                  (afterHooks (take j (hooksOf hooks ''postResolve'')) (postRecord span p a i d) cr)) =
                Inr ()) \<and>
           (case r of
              Inr _ \<Rightarrow> k = hookCount hooks ''postResolve'' \<and>
                rest = [SpanEnd span, PResolve d] \<and> promise s' = Fulfilled d \<and>
                (PResolve d, afterHooks (hooksOf hooks ''postResolve'') (postRecord span p a i d) cr)
                  \<in> set (trace s')
            | Inl h \<Rightarrow> k < hookCount hooks ''postResolve'' \<and>
                fst ((hooksOf hooks ''postResolve'' ! k) (postRecord span p a i d)
                  (afterHooks (take k (hooksOf hooks ''postResolve'')) (postRecord span p a i d) cr)) =
                  Inl h \<and>
                (\<exists>m. rest = catchSteps span p a i h m res) \<and> promise s' = catchPromise h res)"
proof -
  let ?hc = "postRecord span p a i d"
  let ?fs = "hooksOf hooks ''postResolve''"
  let ?s3 = "emit (ResolveReturn d) ((emit (ResolveCall p a i) (spanStart span s))\<lparr>ctx := cr\<rparr>)"
  have s3: "labels ?s3 = labels s @ [SpanStart span, ResolveCall p a i, ResolveReturn d]"
    "promise ?s3 = Pending" "ctx ?s3 = cr"
    by (simp_all add: emit_simps spanStart_def pend)
  obtain r2 s4 where post: "runHook hooks ''postResolve'' ?hc ?s3 = (r2, s4)"
    by (cases "runHook hooks ''postResolve'' ?hc ?s3")
  from runHook_applied[OF post] obtain k where k: "k \<le> hookCount hooks ''postResolve''"
    "labels s4 = labels ?s3 @ hookSteps ''postResolve'' ?hc k r2"
    "\<forall>j<k. fst ((?fs ! j) ?hc (afterHooks (take j ?fs) ?hc cr)) = Inr ()"
    "case r2 of
       Inr _ \<Rightarrow> k = hookCount hooks ''postResolve'' \<and> ctx s4 = afterHooks ?fs ?hc cr
     | Inl e \<Rightarrow> k < hookCount hooks ''postResolve'' \<and>
         (?fs ! k) ?hc (afterHooks (take k ?fs) ?hc cr) = (Inl e, ctx s4)"
    unfolding s3(3) by blast
  from runHook_promise[OF post] have p4: "promise s4 = Pending" by (simp add: s3)
  show ?thesis
  proof (cases r2)
    case (Inl h)
    from tb rc post Inl have "catchBlock hooks span p a i h s4 = (res, s')"
      by (simp add: tryBlock_def Let_def emit_simps spanStart_def postRecord_def)
    from catchBlock_path[OF this] obtain m where m:
      "labels s' = labels s4 @ catchSteps span p a i h m res"
      "promise s' = (case res of Inr _ \<Rightarrow> (case promise s4 of Pending \<Rightarrow> Rejected h | q \<Rightarrow> q)
                         | Inl _ \<Rightarrow> promise s4)" by blast
    have pr: "promise s' = catchPromise h res"
      using m(2) p4 by (simp add: catchPromise_def split: sum.splits)
    have l: "labels s' = labels s @ [SpanStart span, ResolveCall p a i, ResolveReturn d] @
             hookSteps ''postResolve'' ?hc k (Inl h) @ catchSteps span p a i h m res"
      using m(1) k(2) Inl by (simp add: s3)
    from k(4) Inl have kk: "k < hookCount hooks ''postResolve''"
      "fst ((?fs ! k) ?hc (afterHooks (take k ?fs) ?hc cr)) = Inl h" by simp_all
    show ?thesis
      by (rule exI[of _ k], rule exI[of _ "Inl h"], rule exI[of _ "catchSteps span p a i h m res"])
         (use l k(3) kk pr in auto)
  next
    case (Inr u)
    from tb rc post Inr have rs: "s' = pResolve d (spanEnd span s4)"
      by (auto simp: tryBlock_def Let_def emit_simps spanStart_def postRecord_def)
    from k(4) Inr have kk: "k = hookCount hooks ''postResolve''" "ctx s4 = afterHooks ?fs ?hc cr"
      by simp_all
    have e: "labels s' = labels s4 @ [SpanEnd span, PResolve d]" "promise s' = Fulfilled d"
      "trace s' = trace s4 @ [(SpanEnd span, ctx s4), (PResolve d, ctx s4)]"
      unfolding rs using p4 by (auto simp: pResolve_def spanEnd_def Let_def emit_simps labels_def)
    have l: "labels s' = labels s @ [SpanStart span, ResolveCall p a i, ResolveReturn d] @
             hookSteps ''postResolve'' ?hc k (Inr ()) @ [SpanEnd span, PResolve d]"
      using e(1) k(2) Inr by (simp add: s3)
    have mem: "(PResolve d, afterHooks ?fs ?hc cr) \<in> set (trace s')"
      using e(3) kk(2) by simp
    show ?thesis
      by (rule exI[of _ k], rule exI[of _ "Inr ()"], rule exI[of _ "[SpanEnd span, PResolve d]"])
         (use l k(3) kk(1) e(2) mem in auto)
  qed
qed

lemma runHookFns_first:
  assumes "runHookFns name i (f # fs) hc s = (res, s')"
  shows "\<exists>ev t. trace s' = trace s @ (ev, ctx s) # t"
proof -
  obtain r c where fr: "f hc (ctx s) = (r, c)" by (cases "f hc (ctx s)")
  show ?thesis
  proof (cases r)
    case (Inl e)
    with assms fr show ?thesis by (auto simp: emit_simps)
  next
    case (Inr u)
    let ?s2 = "emit (HookReturn name i) ((emit (HookCall name i hc) s)\<lparr>ctx := c\<rparr>)"
    from assms fr Inr have "runHookFns name (Suc i) fs hc ?s2 = (res, s')"
      by (simp add: emit_simps)
    from runHookFns_trace[OF this] show ?thesis by (auto simp: emit_simps)
  qed
qed

lemma runHook_first:
  assumes "runHook hooks name hc s = (res, s')"
  shows "s' = s \<or> (\<exists>ev t. trace s' = trace s @ (ev, ctx s) # t)"
proof (cases "hooks name")
  case None
  with assms show ?thesis by (simp add: runHook_def)
next
  case (Some fs)
  with assms have run: "runHookFns name 0 fs hc s = (res, s')" by (simp add: runHook_def)
  show ?thesis
  proof (cases fs)
    case Nil
    with run show ?thesis by simp
  next
    case (Cons f fs')
    with run runHookFns_first[of name 0 f fs' hc s res s'] show ?thesis by simp
  qed
qed

lemma middleware_first_step:
  assumes run: "graphqlJaegerMiddleware tracer' newSpan mo hooks resolve p a c i = (res, s)"
  shows "\<exists>ev t. trace s = (ev, attached tracer' (spanOf newSpan mo) c) # t"
proof -
  let ?span = "spanOf newSpan mo"
  let ?s0 = "\<lparr>ctx = attached tracer' ?span c, promise = Pending, trace = []\<rparr>"
  obtain r s1 where pr: "runHook hooks ''preResolve'' (preRecord ?span p a i) ?s0 = (r, s1)"
    by (cases "runHook hooks ''preResolve'' (preRecord ?span p a i) ?s0")
  from runHook_promise[OF pr] have pend: "promise s1 = Pending" by simp
  from runHook_first[OF pr]
  have first: "s1 = ?s0 \<or> (\<exists>ev t. trace s1 = (ev, attached tracer' ?span c) # t)" by simp
  show ?thesis
  proof (cases r)
    case (Inl e)
    with run pr have s: "s = s1" by (auto simp: middleware_unfold)
    from runHook_steps[OF pr] Inl have "labels s1 \<noteq> labels ?s0"
      by (auto simp: hookSteps_def hookStepsFrom_def)
    with first s show ?thesis by auto
  next
    case (Inr u)
    with run pr have tb: "tryBlock hooks resolve ?span p a i s1 = (res, s)"
      by (auto simp: middleware_unfold)
    from tryBlock_path(2)[OF tb pend] obtain t where
      t: "trace s = trace s1 @ (SpanStart ?span, ctx s1) # (ResolveCall p a i, ctx s1) # t" by blast
    from first show ?thesis
    proof
      assume "s1 = ?s0"
      with t show ?thesis by simp
    next
      assume "\<exists>ev t. trace s1 = (ev, attached tracer' ?span c) # t"
      with t show ?thesis by auto
    qed
  qed
qed

lemmas sample_defs = sample_def graphqlJaegerMiddleware_def startRootSpan_def spanCallback_def
  tryBlock_def catchBlock_def runHook_def emit_def spanStart_def spanEnd_def pResolve_def
  pReject_def spanOptions_def defaultOptions_def sampleContext_def Let_def labels_def

section \<open>Hook dispatch\<close>

text \<open>
  C7. A dispatch calls the hooks registered under the key one after the other, in the
  order of the array, each on the context the one before left behind and only after that
  one has returned. When the hook at position \<open>k\<close> throws \<open>e\<close>, the steps end with that call
  and throw: no later hook is called, and \<open>e\<close> is the outcome of the dispatch.
\<close>

theorem runHook_sequential:
  assumes "runHook hooks name hc s = (res, s')"
  shows "\<exists>k\<le>hookCount hooks name.
           labels s' = labels s @ hookSteps name hc k res \<and>
           (\<forall>j<k. fst ((hooksOf hooks name ! j) hc
                         (afterHooks (take j (hooksOf hooks name)) hc (ctx s))) = Inr ()) \<and>
           (case res of
              Inr _ \<Rightarrow> k = hookCount hooks name \<and> ctx s' = afterHooks (hooksOf hooks name) hc (ctx s)
            | Inl e \<Rightarrow> k < hookCount hooks name \<and>
                (hooksOf hooks name ! k) hc (afterHooks (take k (hooksOf hooks name)) hc (ctx s)) =
                  (Inl e, ctx s'))"
proof (cases "hooks name")
  case None
  with assms have "res = Inr ()" "s' = s" by (auto simp: runHook_def)
  with None show ?thesis
    by (auto simp: hookCount_def hooksOf_def hookSteps_def hookStepsFrom_zero_Inr afterHooks_Nil)
next
  case (Some fs)
  with assms have run: "runHookFns name 0 fs hc s = (res, s')" by (simp add: runHook_def)
  from Some have eq: "hooksOf hooks name = fs"
    by (simp add: hooksOf_def)
  show ?thesis
    unfolding hookSteps_def hookCount_def eq by (rule runHookFns_ctx[OF run])
qed

text \<open>
  A dispatch of three hooks whose second one throws: the first has incremented the
  counter, the third is never called.
\<close>

theorem runHook_sequential_witness:
  "fst (runHook [''postResolve'' \<mapsto> [increment, failing ''H'', increment]] ''postResolve''
          (postRecord ''span'' 1 2 3 ''ok'') \<lparr>ctx = sampleContext, promise = Pending, trace = []\<rparr>) =
     Inl ''H'' \<and>
   labels (snd (runHook [''postResolve'' \<mapsto> [increment, failing ''H'', increment]] ''postResolve''
          (postRecord ''span'' 1 2 3 ''ok'') \<lparr>ctx = sampleContext, promise = Pending, trace = []\<rparr>)) =
     [HookCall ''postResolve'' 0 (postRecord ''span'' 1 2 3 ''ok''), HookReturn ''postResolve'' 0,
      HookCall ''postResolve'' 1 (postRecord ''span'' 1 2 3 ''ok''), HookThrow ''postResolve'' 1 ''H''] \<and>
   user (ctx (snd (runHook [''postResolve'' \<mapsto> [increment, failing ''H'', increment]] ''postResolve''
          (postRecord ''span'' 1 2 3 ''ok'') \<lparr>ctx = sampleContext, promise = Pending, trace = []\<rparr>))) = 1"
  using runHook_sequential [of "[''postResolve'' \<mapsto> [increment, failing ''H'', increment]]"
      "''postResolve''" "postRecord ''span'' 1 2 3 ''ok''"
      "\<lparr>ctx = sampleContext, promise = Pending, trace = []\<rparr>"
      "fst (runHook [''postResolve'' \<mapsto> [increment, failing ''H'', increment]] ''postResolve''
          (postRecord ''span'' 1 2 3 ''ok'') \<lparr>ctx = sampleContext, promise = Pending, trace = []\<rparr>)"
      "snd (runHook [''postResolve'' \<mapsto> [increment, failing ''H'', increment]] ''postResolve''
          (postRecord ''span'' 1 2 3 ''ok'') \<lparr>ctx = sampleContext, promise = Pending, trace = []\<rparr>)"]
  by (simp add: sample_defs increment_def failing_def)

text \<open>
  C8. A dispatch for a key with no array, or with an empty one, returns at once and
  leaves the state as it is. A middleware with no hook under any of the three keys
  behaves as one with no hooks at all: the caller's promise holds what the resolver,
  called on the context with the tracing handle attached, produced, and the context is
  left as the resolver left it.
\<close>

theorem no_hooks_identity:
  "(hooks name = None \<or> hooks name = Some [] \<longrightarrow> runHook hooks name hc s = (Inr (), s)) \<and>
   (hookCount hooks ''preResolve'' = 0 \<and> hookCount hooks ''postResolve'' = 0 \<and>
    hookCount hooks ''resolveError'' = 0 \<longrightarrow>
      graphqlJaegerMiddleware tracer' newSpan mo hooks resolve p a c i =
        graphqlJaegerMiddleware tracer' newSpan mo Map.empty resolve p a c i \<and>
      promise (snd (graphqlJaegerMiddleware tracer' newSpan mo hooks resolve p a c i)) =
        settled (fst (resolve p a (attached tracer' (spanOf newSpan mo) c) i)) \<and>
      ctx (snd (graphqlJaegerMiddleware tracer' newSpan mo hooks resolve p a c i)) =
        snd (resolve p a (attached tracer' (spanOf newSpan mo) c) i))"
proof (intro conjI impI)
  assume "hooks name = None \<or> hooks name = Some []"
  then have "hookCount hooks name = 0" by (auto simp: hookCount_def hooksOf_def)
  then show "runHook hooks name hc s = (Inr (), s)" by (rule runHook_none)
next
  assume h: "hookCount hooks ''preResolve'' = 0 \<and> hookCount hooks ''postResolve'' = 0 \<and>
    hookCount hooks ''resolveError'' = 0"
  have e: "hookCount Map.empty n = 0" for n :: string
    by (simp add: hookCount_def hooksOf_def)
  show "graphqlJaegerMiddleware tracer' newSpan mo hooks resolve p a c i =
        graphqlJaegerMiddleware tracer' newSpan mo Map.empty resolve p a c i"
    using h by (simp add: middleware_no_hooks e)
  show "promise (snd (graphqlJaegerMiddleware tracer' newSpan mo hooks resolve p a c i)) =
        settled (fst (resolve p a (attached tracer' (spanOf newSpan mo) c) i))"
    using h by (simp add: middleware_no_hooks Let_def pResolve_def pReject_def spanEnd_def
        spanStart_def emit_simps split: prod.splits sum.splits)
  show "ctx (snd (graphqlJaegerMiddleware tracer' newSpan mo hooks resolve p a c i)) =
        snd (resolve p a (attached tracer' (spanOf newSpan mo) c) i)"
    using h by (simp add: middleware_no_hooks Let_def pResolve_def pReject_def spanEnd_def
        spanStart_def emit_simps split: prod.splits sum.splits)
qed

text \<open>An empty array under \<open>postResolve\<close> and nothing else; the resolver resolves to \<open>"ok"\<close>.\<close>

theorem no_hooks_identity_witness:
  "[''postResolve'' \<mapsto> ([] :: sampleHookFn list)] ''postResolve'' = Some [] \<and>
   hookCount [''postResolve'' \<mapsto> ([] :: sampleHookFn list)] ''preResolve'' = 0 \<and>
   hookCount [''postResolve'' \<mapsto> ([] :: sampleHookFn list)] ''postResolve'' = 0 \<and>
   hookCount [''postResolve'' \<mapsto> ([] :: sampleHookFn list)] ''resolveError'' = 0 \<and>
   runHook [''postResolve'' \<mapsto> ([] :: sampleHookFn list)] ''postResolve''
       (postRecord ''graphqlRequest'' 1 2 3 ''ok'')
       \<lparr>ctx = sampleContext, promise = Pending, trace = []\<rparr> =
     (Inr (), \<lparr>ctx = sampleContext, promise = Pending, trace = []\<rparr>) \<and>
   sample [''postResolve'' \<mapsto> []] resolveOk = sample Map.empty resolveOk \<and>
   promise (snd (sample [''postResolve'' \<mapsto> []] resolveOk)) = Fulfilled ''ok'' \<and>
   labels (snd (sample [''postResolve'' \<mapsto> []] resolveOk)) =
     [SpanStart ''graphqlRequest'', ResolveCall 1 2 3, ResolveReturn ''ok'',
      SpanEnd ''graphqlRequest'', PResolve ''ok'']"
  using no_hooks_identity [of "[''postResolve'' \<mapsto> []]" "''postResolve''"
      "postRecord ''graphqlRequest'' 1 2 3 ''ok''"
      "\<lparr>ctx = sampleContext, promise = Pending, trace = []\<rparr>"
      "''tracer''" spanName "\<lparr>rootSpanOptions = None\<rparr>" resolveOk 1 2 sampleContext 3]
  by (simp add: sample_defs resolveOk_def hookCount_def hooksOf_def)

section \<open>Span lifecycle\<close>

text \<open>
  C1 (as amended). In every invocation \<open>span.start()\<close> and \<open>span.end()\<close> are each called at
  most once. When no \<open>preResolve\<close> hook throws, \<open>span.start()\<close> is called exactly once, on
  the root span; when, moreover, no \<open>resolveError\<close> hook throws, \<open>span.end()\<close> is called
  exactly once, on the root span. This is so whether the resolver resolves, the resolver
  throws, or a \<open>postResolve\<close> hook throws.
\<close>

theorem span_started_and_ended_once:
  assumes "graphqlJaegerMiddleware tracer' newSpan middlewareOptions hooks resolve p a c i = (res, s)"
  shows "length (filter isSpanStart (labels s)) \<le> 1 \<and> length (filter isSpanEnd (labels s)) \<le> 1 \<and>
         (\<not> hookThrew ''preResolve'' (labels s) \<longrightarrow>
            filter isSpanStart (labels s) = [SpanStart (spanOf newSpan middlewareOptions)]) \<and>
         (\<not> hookThrew ''preResolve'' (labels s) \<and> \<not> hookThrew ''resolveError'' (labels s) \<longrightarrow>
            filter isSpanEnd (labels s) = [SpanEnd (spanOf newSpan middlewareOptions)])"
  using middleware_path[OF assms refl]
  by (elim disjE exE conjE)
     (auto simp: filter_hookSteps_simps filter_catchSteps hookThrew_append hookThrew_Cons
        hookThrew_hookSteps hookThrew_catchSteps split: sum.splits)

text \<open>
  Two sample invocations. In the first the resolver throws and the \<open>resolveError\<close> hook
  throws as well: the span has been started once. In the second the resolver resolves
  and the \<open>postResolve\<close> hook throws: the span is started once and ended once.
\<close>

theorem span_started_and_ended_once_witness:
  "\<not> hookThrew ''preResolve'' (labels (snd (sample [''resolveError'' \<mapsto> [failing ''H2'']] resolveFail))) \<and>
   hookThrew ''resolveError'' (labels (snd (sample [''resolveError'' \<mapsto> [failing ''H2'']] resolveFail))) \<and>
   filter isSpanStart (labels (snd (sample [''resolveError'' \<mapsto> [failing ''H2'']] resolveFail))) =
     [SpanStart ''graphqlRequest''] \<and>
   \<not> hookThrew ''preResolve'' (labels (snd (sample [''postResolve'' \<mapsto> [failing ''H'']] resolveOk))) \<and>
   \<not> hookThrew ''resolveError'' (labels (snd (sample [''postResolve'' \<mapsto> [failing ''H'']] resolveOk))) \<and>
   filter isSpanStart (labels (snd (sample [''postResolve'' \<mapsto> [failing ''H'']] resolveOk))) =
     [SpanStart ''graphqlRequest''] \<and>
   filter isSpanEnd (labels (snd (sample [''postResolve'' \<mapsto> [failing ''H'']] resolveOk))) =
     [SpanEnd ''graphqlRequest'']"
  using span_started_and_ended_once [of "''tracer''" spanName "\<lparr>rootSpanOptions = None\<rparr>"
      "[''postResolve'' \<mapsto> [failing ''H'']]" resolveOk 1 2 sampleContext 3
      "fst (sample [''postResolve'' \<mapsto> [failing ''H'']] resolveOk)"
      "snd (sample [''postResolve'' \<mapsto> [failing ''H'']] resolveOk)"]
    span_started_and_ended_once [of "''tracer''" spanName "\<lparr>rootSpanOptions = None\<rparr>"
      "[''resolveError'' \<mapsto> [failing ''H2'']]" resolveFail 1 2 sampleContext 3
      "fst (sample [''resolveError'' \<mapsto> [failing ''H2'']] resolveFail)"
      "snd (sample [''resolveError'' \<mapsto> [failing ''H2'']] resolveFail)"]
  by (simp add: sample_defs failing_def resolveOk_def resolveFail_def hookThrew_def spanOf_def)

text \<open>
  C1 as stated fails when a \<open>preResolve\<close> hook throws: the callback ends at line 98, so
  the span is neither started nor ended. It fails as well when a \<open>resolveError\<close> hook
  throws: the span has been started and is not ended.
\<close>

theorem span_not_started_counterexample:
  "\<not> (length (filter isSpanStart (labels (snd (sample [''preResolve'' \<mapsto> [failing ''H'']] resolveOk)))) = 1 \<and>
      length (filter isSpanEnd (labels (snd (sample [''preResolve'' \<mapsto> [failing ''H'']] resolveOk)))) = 1) \<and>
   \<not> (length (filter isSpanStart (labels (snd (sample [''resolveError'' \<mapsto> [failing ''H2'']] resolveFail)))) = 1 \<and>
      length (filter isSpanEnd (labels (snd (sample [''resolveError'' \<mapsto> [failing ''H2'']] resolveFail)))) = 1)"
  by (simp add: sample_defs failing_def resolveOk_def resolveFail_def)

section \<open>Order of the protocol\<close>

text \<open>
  C5. In every invocation the steps begin with the dispatch of \<open>preResolve\<close>. Either a hook
  of it throws, and then these are all the steps: the resolver is never called and the
  span is never started. Or every registered \<open>preResolve\<close> hook is called and returns, in
  the order of registration; the next step is \<open>span.start()\<close>, the one after it the call of
  the resolver with the original arguments; and after that no \<open>preResolve\<close> hook runs, the
  span is not started again and the resolver is not called again.
\<close>

theorem preResolve_before_resolver:
  assumes "graphqlJaegerMiddleware tracer' newSpan middlewareOptions hooks resolve p a c i = (res, s)"
  shows "(\<exists>k e. k < hookCount hooks ''preResolve'' \<and>
            labels s = hookSteps ''preResolve'' (preRecord (spanOf newSpan middlewareOptions) p a i) k (Inl e))
       \<or> (\<exists>rest.
            labels s =
              hookSteps ''preResolve'' (preRecord (spanOf newSpan middlewareOptions) p a i)
                (hookCount hooks ''preResolve'') (Inr ()) @
              [SpanStart (spanOf newSpan middlewareOptions), ResolveCall p a i] @ rest \<and>
            filter (isHookStep ''preResolve'') rest = [] \<and>
            filter isSpanStart rest = [] \<and> filter isResolveCall rest = [])"
  using middleware_path[OF assms refl]
proof (elim disjE exE conjE)
  fix k e
  assume "k < hookCount hooks ''preResolve''"
    "labels s = hookSteps ''preResolve'' (preRecord (spanOf newSpan middlewareOptions) p a i) k (Inl e)"
  then show ?thesis by blast
next
  fix cp d
  assume "labels s =
       hookSteps ''preResolve'' (preRecord (spanOf newSpan middlewareOptions) p a i)
        (hookCount hooks ''preResolve'') (Inr ()) @
       [SpanStart (spanOf newSpan middlewareOptions), ResolveCall p a i, ResolveReturn d] @
       hookSteps ''postResolve'' (postRecord (spanOf newSpan middlewareOptions) p a i d)
        (hookCount hooks ''postResolve'') (Inr ()) @
       [SpanEnd (spanOf newSpan middlewareOptions), PResolve d]"
  then show ?thesis
    by (intro disjI2 exI[of _ "ResolveReturn d #
          hookSteps ''postResolve'' (postRecord (spanOf newSpan middlewareOptions) p a i d)
            (hookCount hooks ''postResolve'') (Inr ()) @
          [SpanEnd (spanOf newSpan middlewareOptions), PResolve d]"])
       (simp add: filter_hookSteps_simps filter_isHookStep_other)
next
  fix cp d h k m
  assume "labels s =
       hookSteps ''preResolve'' (preRecord (spanOf newSpan middlewareOptions) p a i)
        (hookCount hooks ''preResolve'') (Inr ()) @
       [SpanStart (spanOf newSpan middlewareOptions), ResolveCall p a i, ResolveReturn d] @
       hookSteps ''postResolve'' (postRecord (spanOf newSpan middlewareOptions) p a i d) k (Inl h) @
       catchSteps (spanOf newSpan middlewareOptions) p a i h m res"
  then show ?thesis
    by (intro disjI2 exI[of _ "ResolveReturn d #
          hookSteps ''postResolve'' (postRecord (spanOf newSpan middlewareOptions) p a i d) k (Inl h) @
          catchSteps (spanOf newSpan middlewareOptions) p a i h m res"])
       (simp add: filter_hookSteps_simps filter_isHookStep_other filter_catchSteps
          filter_isHookStep_catchSteps)
next
  fix cp e m
  assume "labels s =
       hookSteps ''preResolve'' (preRecord (spanOf newSpan middlewareOptions) p a i)
        (hookCount hooks ''preResolve'') (Inr ()) @
       [SpanStart (spanOf newSpan middlewareOptions), ResolveCall p a i, ResolveThrow e] @
       catchSteps (spanOf newSpan middlewareOptions) p a i e m res"
  then show ?thesis
    by (intro disjI2 exI[of _ "ResolveThrow e #
          catchSteps (spanOf newSpan middlewareOptions) p a i e m res"])
       (simp add: filter_hookSteps_simps filter_isHookStep_other filter_catchSteps
          filter_isHookStep_catchSteps)
qed

text \<open>
  Two \<open>preResolve\<close> hooks that increment the counter: it is 2 when the resolver is called.
\<close>

theorem preResolve_before_resolver_witness:
  "labels (snd (sample [''preResolve'' \<mapsto> [increment, increment]] resolveOk)) =
     [HookCall ''preResolve'' 0 (preRecord ''graphqlRequest'' 1 2 3), HookReturn ''preResolve'' 0,
      HookCall ''preResolve'' 1 (preRecord ''graphqlRequest'' 1 2 3), HookReturn ''preResolve'' 1,
      SpanStart ''graphqlRequest'', ResolveCall 1 2 3, ResolveReturn ''ok'',
      SpanEnd ''graphqlRequest'', PResolve ''ok''] \<and>
   (ResolveCall 1 2 3, \<lparr>user = 2, tracing = Some \<lparr>tracer = Some ''tracer'',
       rootSpan = Some ''graphqlRequest''\<rparr>\<rparr>)
     \<in> set (trace (snd (sample [''preResolve'' \<mapsto> [increment, increment]] resolveOk)))"
  using preResolve_before_resolver [of "''tracer''" spanName "\<lparr>rootSpanOptions = None\<rparr>"
      "[''preResolve'' \<mapsto> [increment, increment]]" resolveOk 1 2 sampleContext 3
      "fst (sample [''preResolve'' \<mapsto> [increment, increment]] resolveOk)"
      "snd (sample [''preResolve'' \<mapsto> [increment, increment]] resolveOk)"]
  by (simp add: sample_defs increment_def resolveOk_def preRecord_def)

text \<open>
  C6. When the resolver has resolved to \<open>d\<close>, the step after its return is the dispatch of
  \<open>postResolve\<close>: its hooks are applied one after the other, in the order of registration,
  to the record whose \<open>resolvedData\<close> is \<open>d\<close>, the first of them on the context the resolver
  left behind, and no \<open>postResolve\<close> hook is ever called with another record. When all of
  them have returned, \<open>span.end()\<close> and \<open>pResolve(d)\<close> are the last two steps, taken on the
  context those hooks left behind, and the caller's promise is fulfilled with \<open>d\<close>. When one
  of them throws \<open>h\<close>, the \<open>catch\<close> block follows with \<open>h\<close> and \<open>d\<close> is not handed to the
  caller.
\<close>

theorem postResolve_after_result:
  assumes run: "graphqlJaegerMiddleware tracer' newSpan middlewareOptions hooks resolve p a c i = (res, s)"
    and ret: "ResolveReturn d \<in> set (labels s)"
  shows "\<exists>k r rest.
           (ResolveCall p a i,
            resolverContext tracer' (spanOf newSpan middlewareOptions) hooks p a i c)
             \<in> set (trace s) \<and>
           fst (resolve p a
                  (resolverContext tracer' (spanOf newSpan middlewareOptions) hooks p a i c) i) =
             Inr d \<and>
           labels s =
             hookSteps ''preResolve'' (preRecord (spanOf newSpan middlewareOptions) p a i)
               (hookCount hooks ''preResolve'') (Inr ()) @
             [SpanStart (spanOf newSpan middlewareOptions), ResolveCall p a i, ResolveReturn d] @
             hookSteps ''postResolve'' (postRecord (spanOf newSpan middlewareOptions) p a i d) k r @
             rest \<and>
           (\<forall>j<k. fst ((hooksOf hooks ''postResolve'' ! j)
                  (postRecord (spanOf newSpan middlewareOptions) p a i d)
                  (afterHooks (take j (hooksOf hooks ''postResolve''))
                     (postRecord (spanOf newSpan middlewareOptions) p a i d)
                     (snd (resolve p a
                        (resolverContext tracer' (spanOf newSpan middlewareOptions) hooks p a i c)
                        i)))) = Inr ()) \<and>
           (case r of
              Inr _ \<Rightarrow> k = hookCount hooks ''postResolve'' \<and>
                rest = [SpanEnd (spanOf newSpan middlewareOptions), PResolve d] \<and>
                promise s = Fulfilled d \<and>
                (PResolve d,
                 afterHooks (hooksOf hooks ''postResolve'')
                   (postRecord (spanOf newSpan middlewareOptions) p a i d)
                   (snd (resolve p a
                      (resolverContext tracer' (spanOf newSpan middlewareOptions) hooks p a i c) i)))
                  \<in> set (trace s)
            | Inl h \<Rightarrow> k < hookCount hooks ''postResolve'' \<and>
                fst ((hooksOf hooks ''postResolve'' ! k)
                  (postRecord (spanOf newSpan middlewareOptions) p a i d)
                  (afterHooks (take k (hooksOf hooks ''postResolve''))
                     (postRecord (spanOf newSpan middlewareOptions) p a i d)
                     (snd (resolve p a
                        (resolverContext tracer' (spanOf newSpan middlewareOptions) hooks p a i c)
                        i)))) = Inl h \<and>
                (\<exists>m. rest = catchSteps (spanOf newSpan middlewareOptions) p a i h m res) \<and>
                promise s = catchPromise h res) \<and>
           (\<forall>j hc. HookCall ''postResolve'' j hc \<in> set (labels s) \<longrightarrow>
              resolvedData (data hc) = Some d)"
proof -
  let ?span = "spanOf newSpan middlewareOptions"
  let ?c1 = "resolverContext tracer' ?span hooks p a i c"
  have pre: "\<not> hookThrew ''preResolve'' (labels s)"
  proof
    assume "hookThrew ''preResolve'' (labels s)"
    from middleware_pre_threw[OF run this] ret show False
      by (auto simp: ResolveReturn_notin_hookSteps)
  qed
  from middleware_called[OF run pre] obtain s1 where s1:
    "ctx s1 = ?c1" "promise s1 = Pending"
    "labels s1 = hookSteps ''preResolve'' (preRecord ?span p a i) (hookCount hooks ''preResolve'') (Inr ())"
    "tryBlock hooks resolve ?span p a i s1 = (res, s)" by blast
  from tryBlock_path(2)[OF s1(4,2)] have mem: "(ResolveCall p a i, ?c1) \<in> set (trace s)"
    by (auto simp: s1(1))
  obtain rr cr where rc: "resolve p a ?c1 i = (rr, cr)" by (cases "resolve p a ?c1 i")
  have "\<exists>d'. rr = Inr d'"
  proof (cases rr)
    case (Inl e)
    from tryBlock_path(1)[OF s1(4,2)] rc Inl ret show ?thesis
      unfolding s1(1,3)
      by (elim disjE exE conjE)
         (auto simp: ResolveReturn_notin_hookSteps ResolveReturn_notin_catchSteps)
  next
    case (Inr d')
    then show ?thesis by blast
  qed
  then obtain d' where rr: "rr = Inr d'" by blast
  from rc rr have rc': "resolve p a (ctx s1) i = (Inr d', cr)" by (simp add: s1(1))
  from tryBlock_resolved[OF s1(4,2) rc'] obtain k r rest where t:
    "labels s = labels s1 @ [SpanStart ?span, ResolveCall p a i, ResolveReturn d'] @
       hookSteps ''postResolve'' (postRecord ?span p a i d') k r @ rest"
    "\<forall>j<k. fst ((hooksOf hooks ''postResolve'' ! j) (postRecord ?span p a i d')
        (afterHooks (take j (hooksOf hooks ''postResolve'')) (postRecord ?span p a i d') cr)) = Inr ()"
    "case r of
       Inr _ \<Rightarrow> k = hookCount hooks ''postResolve'' \<and>
         rest = [SpanEnd ?span, PResolve d'] \<and> promise s = Fulfilled d' \<and>
         (PResolve d', afterHooks (hooksOf hooks ''postResolve'') (postRecord ?span p a i d') cr)
           \<in> set (trace s)
     | Inl h \<Rightarrow> k < hookCount hooks ''postResolve'' \<and>
         fst ((hooksOf hooks ''postResolve'' ! k) (postRecord ?span p a i d')
           (afterHooks (take k (hooksOf hooks ''postResolve'')) (postRecord ?span p a i d') cr)) = Inl h \<and>
         (\<exists>m. rest = catchSteps ?span p a i h m res) \<and> promise s = catchPromise h res"
    by blast
  have rest: "ResolveReturn d \<notin> set rest \<and>
      (\<forall>j hc. HookCall ''postResolve'' j hc \<notin> set rest)"
    using t(3)
    by (cases r) (auto simp: ResolveReturn_notin_catchSteps dest: HookCall_in_catchSteps)
  with ret t(1) have d: "d' = d"
    by (auto simp: s1(3) ResolveReturn_notin_hookSteps)
  have calls: "\<forall>j hc. HookCall ''postResolve'' j hc \<in> set (labels s) \<longrightarrow>
      resolvedData (data hc) = Some d"
    using rest unfolding t(1) s1(3) d
    by (auto simp: postRecord_def dest: HookCall_in_hookSteps)
  have cr: "snd (resolve p a ?c1 i) = cr" and fr: "fst (resolve p a ?c1 i) = Inr d"
    using rc rr d by simp_all
  note t' = t[unfolded d s1(3)]
  show ?thesis
    unfolding cr
    by (rule exI[of _ k], rule exI[of _ r], rule exI[of _ rest])
       (use mem fr t' calls in simp)
qed

text \<open>
  One \<open>preResolve\<close> hook and two \<open>postResolve\<close> hooks, each incrementing the counter,
  around a resolver that resolves to \<open>"ok"\<close>: the counter is 3 when \<open>"ok"\<close> is handed to the
  caller.
\<close>

theorem postResolve_after_result_witness:
  "ResolveReturn ''ok'' \<in> set (labels (snd (sample
       [''preResolve'' \<mapsto> [increment], ''postResolve'' \<mapsto> [increment, increment]] resolveOk))) \<and>
   labels (snd (sample
       [''preResolve'' \<mapsto> [increment], ''postResolve'' \<mapsto> [increment, increment]] resolveOk)) =
     [HookCall ''preResolve'' 0 (preRecord ''graphqlRequest'' 1 2 3), HookReturn ''preResolve'' 0,
      SpanStart ''graphqlRequest'', ResolveCall 1 2 3, ResolveReturn ''ok'',
      HookCall ''postResolve'' 0 (postRecord ''graphqlRequest'' 1 2 3 ''ok''), HookReturn ''postResolve'' 0,
      HookCall ''postResolve'' 1 (postRecord ''graphqlRequest'' 1 2 3 ''ok''), HookReturn ''postResolve'' 1,
      SpanEnd ''graphqlRequest'', PResolve ''ok''] \<and>
   (PResolve ''ok'',
    \<lparr>user = 3, tracing = Some \<lparr>tracer = Some ''tracer'', rootSpan = Some ''graphqlRequest''\<rparr>\<rparr>)
     \<in> set (trace (snd (sample
       [''preResolve'' \<mapsto> [increment], ''postResolve'' \<mapsto> [increment, increment]] resolveOk))) \<and>
   promise (snd (sample
       [''preResolve'' \<mapsto> [increment], ''postResolve'' \<mapsto> [increment, increment]] resolveOk)) =
     Fulfilled ''ok''"
  using postResolve_after_result [of "''tracer''" spanName "\<lparr>rootSpanOptions = None\<rparr>"
      "[''preResolve'' \<mapsto> [increment], ''postResolve'' \<mapsto> [increment, increment]]" resolveOk
      1 2 sampleContext 3
      "fst (sample [''preResolve'' \<mapsto> [increment], ''postResolve'' \<mapsto> [increment, increment]]
         resolveOk)"
      "snd (sample [''preResolve'' \<mapsto> [increment], ''postResolve'' \<mapsto> [increment, increment]]
         resolveOk)" "''ok''"]
  by (simp add: sample_defs increment_def resolveOk_def postRecord_def preRecord_def)

section \<open>What the caller receives\<close>

text \<open>
  C3 (as amended). In every invocation in which no \<open>postResolve\<close> hook and no
  \<open>resolveError\<close> hook throws: when no \<open>preResolve\<close> hook throws either, the resolver is
  called exactly once, with the original arguments and on the context the \<open>preResolve\<close>
  hooks left behind, and the caller's promise holds exactly what that call produced, that
  is, it is fulfilled with the resolver's value or rejected with the resolver's error;
  and when a \<open>preResolve\<close> hook throws, the resolver is not called at all.
\<close>

theorem caller_receives_resolver_outcome:
  assumes run: "graphqlJaegerMiddleware tracer' newSpan middlewareOptions hooks resolve p a c i = (res, s)"
    and post: "\<not> hookThrew ''postResolve'' (labels s)"
    and err: "\<not> hookThrew ''resolveError'' (labels s)"
  shows "(\<not> hookThrew ''preResolve'' (labels s) \<longrightarrow>
            filter isResolveCall (labels s) = [ResolveCall p a i] \<and>
            (ResolveCall p a i,
             resolverContext tracer' (spanOf newSpan middlewareOptions) hooks p a i c)
              \<in> set (trace s) \<and>
            promise s =
              settled (fst (resolve p a
                (resolverContext tracer' (spanOf newSpan middlewareOptions) hooks p a i c) i))) \<and>
         (hookThrew ''preResolve'' (labels s) \<longrightarrow> filter isResolveCall (labels s) = [])"
proof (intro conjI impI)
  assume "hookThrew ''preResolve'' (labels s)"
  from middleware_pre_threw[OF run this] show "filter isResolveCall (labels s) = []"
    by (auto simp: filter_hookSteps_simps)
next
  assume pre: "\<not> hookThrew ''preResolve'' (labels s)"
  let ?span = "spanOf newSpan middlewareOptions"
  from middleware_called[OF run pre] obtain s1 where s1:
    "ctx s1 = resolverContext tracer' ?span hooks p a i c" "promise s1 = Pending"
    "labels s1 = hookSteps ''preResolve'' (preRecord ?span p a i) (hookCount hooks ''preResolve'') (Inr ())"
    "tryBlock hooks resolve ?span p a i s1 = (res, s)" by blast
  from tryBlock_path(2)[OF s1(4,2)]
  show "(ResolveCall p a i, resolverContext tracer' ?span hooks p a i c) \<in> set (trace s)"
    by (auto simp: s1(1))
  from tryBlock_path(1)[OF s1(4,2)] post err
  show "filter isResolveCall (labels s) = [ResolveCall p a i]"
    unfolding s1(1,3)
    by (elim disjE exE conjE)
       (auto simp: filter_hookSteps_simps filter_catchSteps hookThrew_append hookThrew_Cons
          hookThrew_hookSteps hookThrew_catchSteps)
  from tryBlock_path(1)[OF s1(4,2)] post err
  show "promise s = settled (fst (resolve p a (resolverContext tracer' ?span hooks p a i c) i))"
    unfolding s1(1,3)
    by (elim disjE exE conjE)
       (auto simp: hookThrew_append hookThrew_Cons hookThrew_hookSteps hookThrew_catchSteps
          catchPromise_def split: sum.splits)
qed

text \<open>
  A resolver that throws \<open>"E"\<close>, after one \<open>preResolve\<close> hook and observed by one
  \<open>resolveError\<close> hook.
\<close>

theorem caller_receives_resolver_outcome_witness:
  "\<not> hookThrew ''postResolve''
       (labels (snd (sample [''preResolve'' \<mapsto> [increment], ''resolveError'' \<mapsto> [increment]] resolveFail))) \<and>
   \<not> hookThrew ''resolveError''
       (labels (snd (sample [''preResolve'' \<mapsto> [increment], ''resolveError'' \<mapsto> [increment]] resolveFail))) \<and>
   \<not> hookThrew ''preResolve''
       (labels (snd (sample [''preResolve'' \<mapsto> [increment], ''resolveError'' \<mapsto> [increment]] resolveFail))) \<and>
   filter isResolveCall
       (labels (snd (sample [''preResolve'' \<mapsto> [increment], ''resolveError'' \<mapsto> [increment]] resolveFail))) =
     [ResolveCall 1 2 3] \<and>
   (ResolveCall 1 2 3,
    \<lparr>user = 1, tracing = Some \<lparr>tracer = Some ''tracer'', rootSpan = Some ''graphqlRequest''\<rparr>\<rparr>)
     \<in> set (trace (snd (sample [''preResolve'' \<mapsto> [increment], ''resolveError'' \<mapsto> [increment]]
                 resolveFail))) \<and>
   promise (snd (sample [''preResolve'' \<mapsto> [increment], ''resolveError'' \<mapsto> [increment]] resolveFail)) =
     Rejected ''E''"
  using caller_receives_resolver_outcome [of "''tracer''" spanName "\<lparr>rootSpanOptions = None\<rparr>"
      "[''preResolve'' \<mapsto> [increment], ''resolveError'' \<mapsto> [increment]]" resolveFail 1 2
      sampleContext 3
      "fst (sample [''preResolve'' \<mapsto> [increment], ''resolveError'' \<mapsto> [increment]] resolveFail)"
      "snd (sample [''preResolve'' \<mapsto> [increment], ''resolveError'' \<mapsto> [increment]] resolveFail)"]
  by (simp add: sample_defs increment_def resolveFail_def hookThrew_def)

text \<open>
  C3 as stated fails when a \<open>postResolve\<close> hook throws: the resolver has resolved to
  \<open>"ok"\<close>, and the caller's promise is rejected with the hook's error \<open>"H"\<close>. It fails as well
  when the resolver throws \<open>"E"\<close> and a \<open>resolveError\<close> hook throws: the caller's promise is
  not rejected with \<open>"E"\<close>; it stays pending.
\<close>

theorem hook_error_replaces_result_counterexample:
  "(ResolveCall 1 2 3, attached ''tracer'' ''graphqlRequest'' sampleContext)
     \<in> set (trace (snd (sample [''postResolve'' \<mapsto> [failing ''H'']] resolveOk))) \<and>
   fst (resolveOk 1 2 (attached ''tracer'' ''graphqlRequest'' sampleContext) 3) = Inr ''ok'' \<and>
   promise (snd (sample [''postResolve'' \<mapsto> [failing ''H'']] resolveOk)) = Rejected ''H'' \<and>
   promise (snd (sample [''postResolve'' \<mapsto> [failing ''H'']] resolveOk)) \<noteq>
     settled (fst (resolveOk 1 2 (attached ''tracer'' ''graphqlRequest'' sampleContext) 3)) \<and>
   (ResolveCall 1 2 3, attached ''tracer'' ''graphqlRequest'' sampleContext)
     \<in> set (trace (snd (sample [''resolveError'' \<mapsto> [failing ''H2'']] resolveFail))) \<and>
   fst (resolveFail 1 2 (attached ''tracer'' ''graphqlRequest'' sampleContext) 3) = Inl ''E'' \<and>
   promise (snd (sample [''resolveError'' \<mapsto> [failing ''H2'']] resolveFail)) = Pending \<and>
   promise (snd (sample [''resolveError'' \<mapsto> [failing ''H2'']] resolveFail)) \<noteq>
     settled (fst (resolveFail 1 2 (attached ''tracer'' ''graphqlRequest'' sampleContext) 3))"
  by (simp add: sample_defs failing_def resolveOk_def resolveFail_def attached_def)

section \<open>The tracing handle on the context\<close>

text \<open>
  C9 (as amended). In every invocation the context of the first step, which is the call
  of the first \<open>preResolve\<close> hook or, with no such hook, \<open>span.start()\<close>, is the caller's
  context with one handle stored under \<open>context.tracing\<close>, holding the tracer and the root
  span. Provided that every hook registered under the three keys and the resolver leave
  \<open>context.tracing\<close>, with its \<open>tracer\<close> and \<open>rootSpan\<close> properties, as they found it, whether
  they return or throw, that handle is what the context holds at every step of the
  invocation, so at every call of a hook and at the call of the resolver, and at its end.
\<close>

theorem tracing_handle_visible:
  assumes run: "graphqlJaegerMiddleware tracer' newSpan middlewareOptions hooks resolve p a c i = (res, s)"
  shows "trace s \<noteq> [] \<and>
         snd (hd (trace s)) = attached tracer' (spanOf newSpan middlewareOptions) c \<and>
         ((\<forall>name\<in>{''preResolve'', ''postResolve'', ''resolveError''}.
             \<forall>f\<in>set (hooksOf hooks name). \<forall>hc cx. tracing (snd (f hc cx)) = tracing cx) \<and>
          (\<forall>p a cx i. tracing (snd (resolve p a cx i)) = tracing cx) \<longrightarrow>
          handleVisible
            (Some \<lparr>tracer = Some tracer', rootSpan = Some (spanOf newSpan middlewareOptions)\<rparr>) s)"
proof (intro conjI impI)
  from middleware_first_step[OF run]
  show "trace s \<noteq> []" "snd (hd (trace s)) = attached tracer' (spanOf newSpan middlewareOptions) c"
    by auto
next
  assume h: "(\<forall>name\<in>{''preResolve'', ''postResolve'', ''resolveError''}.
             \<forall>f\<in>set (hooksOf hooks name). \<forall>hc cx. tracing (snd (f hc cx)) = tracing cx) \<and>
          (\<forall>p a cx i. tracing (snd (resolve p a cx i)) = tracing cx)"
  then have rsv: "\<forall>p a cx i. tracing (snd (resolve p a cx i)) = tracing cx" by blast
  let ?h = "Some \<lparr>tracer = Some tracer', rootSpan = Some (spanOf newSpan middlewareOptions)\<rparr>"
  let ?s0 = "\<lparr>ctx = attached tracer' (spanOf newSpan middlewareOptions) c, promise = Pending,
               trace = []\<rparr>"
  have s0: "handleVisible ?h ?s0" by (simp add: handleVisible_def attached_def)
  obtain r s1 where pre: "runHook hooks ''preResolve''
      (preRecord (spanOf newSpan middlewareOptions) p a i) ?s0 = (r, s1)"
    by (cases "runHook hooks ''preResolve'' (preRecord (spanOf newSpan middlewareOptions) p a i) ?s0")
  from h have hk:
    "\<forall>f\<in>set (hooksOf hooks ''preResolve''). \<forall>hc cx. tracing (snd (f hc cx)) = tracing cx"
    "\<forall>f\<in>set (hooksOf hooks ''postResolve''). \<forall>hc cx. tracing (snd (f hc cx)) = tracing cx"
    "\<forall>f\<in>set (hooksOf hooks ''resolveError''). \<forall>hc cx. tracing (snd (f hc cx)) = tracing cx"
    by simp_all
  from runHook_handle[OF hk(1) s0 pre] have s1: "handleVisible ?h s1" .
  show "handleVisible ?h s"
  proof (cases r)
    case (Inl e)
    with run pre have "s = s1" by (auto simp: middleware_unfold)
    with s1 show ?thesis by simp
  next
    case (Inr u)
    with run pre have "tryBlock hooks resolve (spanOf newSpan middlewareOptions) p a i s1 = (res, s)"
      by (auto simp: middleware_unfold)
    from tryBlock_handle[OF hk(2,3) rsv s1 this] show ?thesis .
  qed
qed

text \<open>Hooks that only increment the counter, around a resolver that leaves the context alone.\<close>

theorem tracing_handle_visible_witness:
  "(\<forall>hc cx. tracing (snd (increment hc cx)) = tracing cx) \<and>
   (\<forall>p a cx i. tracing (snd (resolveOk p a cx i)) = tracing cx) \<and>
   hd (trace (snd (sample [''preResolve'' \<mapsto> [increment], ''postResolve'' \<mapsto> [increment]] resolveOk))) =
     (HookCall ''preResolve'' 0 (preRecord ''graphqlRequest'' 1 2 3),
      \<lparr>user = 0, tracing = Some \<lparr>tracer = Some ''tracer'', rootSpan = Some ''graphqlRequest''\<rparr>\<rparr>) \<and>
   handleVisible (Some \<lparr>tracer = Some ''tracer'', rootSpan = Some ''graphqlRequest''\<rparr>)
     (snd (sample [''preResolve'' \<mapsto> [increment], ''postResolve'' \<mapsto> [increment]] resolveOk))"
proof -
  let ?hooks = "[''preResolve'' \<mapsto> [increment], ''postResolve'' \<mapsto> [increment]]"
  have run: "graphqlJaegerMiddleware ''tracer'' spanName \<lparr>rootSpanOptions = None\<rparr> ?hooks resolveOk
      1 2 sampleContext 3 = (fst (sample ?hooks resolveOk), snd (sample ?hooks resolveOk))"
    by (simp add: sample_def)
  have hooks: "\<forall>name\<in>{''preResolve'', ''postResolve'', ''resolveError''}.
      \<forall>f\<in>set (hooksOf ?hooks name). \<forall>hc cx. tracing (snd (f hc cx)) = tracing cx"
    by (simp add: hooksOf_def increment_def)
  have rsv: "\<forall>p a cx i. tracing (snd (resolveOk p a cx i)) = tracing cx"
    by (simp add: resolveOk_def)
  have sp: "spanOf spanName \<lparr>rootSpanOptions = None\<rparr> = ''graphqlRequest''"
    by (simp add: spanOf_def spanOptions_def defaultOptions_def)
  have inc: "\<forall>hc cx. tracing (snd (increment hc cx)) = tracing cx"
    by (simp add: increment_def)
  have first: "hd (trace (snd (sample ?hooks resolveOk))) =
     (HookCall ''preResolve'' 0 (preRecord ''graphqlRequest'' 1 2 3),
      \<lparr>user = 0, tracing = Some \<lparr>tracer = Some ''tracer'', rootSpan = Some ''graphqlRequest''\<rparr>\<rparr>)"
    by (simp add: sample_defs increment_def resolveOk_def preRecord_def)
  from tracing_handle_visible [OF run] hooks rsv inc first show ?thesis
    unfolding sp by blast
qed

text \<open>
  C9 as stated fails for a hook that deletes \<open>context.tracing\<close>: the resolver is then called
  on a context with no handle.
\<close>

theorem tracing_handle_detached_counterexample:
  "(ResolveCall 1 2 3, \<lparr>user = 0, tracing = None\<rparr>)
     \<in> set (trace (snd (sample [''preResolve'' \<mapsto> [detach]] resolveOk))) \<and>
   \<not> handleVisible (Some \<lparr>tracer = Some ''tracer'', rootSpan = Some ''graphqlRequest''\<rparr>)
       (snd (sample [''preResolve'' \<mapsto> [detach]] resolveOk))"
  by (simp add: sample_defs detach_def resolveOk_def handleVisible_def)

section \<open>Hooks that throw outside the \<open>try\<close> block\<close>

text \<open>
  The \<open>catch\<close> block after a resolver that threw \<open>e\<close>: every \<open>resolveError\<close> hook is called
  with a record whose \<open>err\<close> is \<open>e\<close>, and the caller's promise is rejected with \<open>e\<close> when the
  dispatch has run through; when a hook of it throws, the steps end there, without
  \<open>span.end()\<close> and without \<open>pReject\<close>, and the promise stays pending.
\<close>

lemma resolver_failure_path:
  assumes run: "graphqlJaegerMiddleware tracer' newSpan middlewareOptions hooks resolve p a c i = (res, s)"
    and thr: "ResolveThrow e \<in> set (labels s)"
  shows "\<exists>m\<le>hookCount hooks ''resolveError''.
           ((\<exists>u. res = Inr u) \<longleftrightarrow> m = hookCount hooks ''resolveError'') \<and>
           labels s =
             hookSteps ''preResolve'' (preRecord (spanOf newSpan middlewareOptions) p a i)
               (hookCount hooks ''preResolve'') (Inr ()) @
             [SpanStart (spanOf newSpan middlewareOptions), ResolveCall p a i, ResolveThrow e] @
             catchSteps (spanOf newSpan middlewareOptions) p a i e m res \<and>
           promise s = catchPromise e res"
  using middleware_path[OF run refl] thr
  by (elim disjE exE conjE)
     (auto simp: ResolveThrow_notin_hookSteps ResolveThrow_notin_catchSteps)

text \<open>The same block after a \<open>postResolve\<close> hook that threw \<open>h\<close>; the caught value is \<open>h\<close>.\<close>

lemma postResolve_failure_path:
  assumes run: "graphqlJaegerMiddleware tracer' newSpan middlewareOptions hooks resolve p a c i = (res, s)"
    and thr: "HookThrow ''postResolve'' k h \<in> set (labels s)"
  shows "\<exists>d. \<exists>m\<le>hookCount hooks ''resolveError''.
           ((\<exists>u. res = Inr u) \<longleftrightarrow> m = hookCount hooks ''resolveError'') \<and>
           labels s =
             hookSteps ''preResolve'' (preRecord (spanOf newSpan middlewareOptions) p a i)
               (hookCount hooks ''preResolve'') (Inr ()) @
             [SpanStart (spanOf newSpan middlewareOptions), ResolveCall p a i, ResolveReturn d] @
             hookSteps ''postResolve'' (postRecord (spanOf newSpan middlewareOptions) p a i d) k (Inl h) @
             catchSteps (spanOf newSpan middlewareOptions) p a i h m res \<and>
           promise s = catchPromise h res"
  using middleware_path[OF run refl] thr
  by (elim disjE exE conjE)
     (auto dest: HookThrow_in_hookSteps HookThrow_in_catchSteps)

text \<open>
  C2. A \<open>preResolve\<close> hook that throws \<open>"H"\<close>: the steps of the invocation are the call of
  the hook and its throw. \<open>span.end()\<close> is not called, the caller's promise is neither
  rejected nor fulfilled, and \<open>"H"\<close> is the unobserved outcome of the async callback.
\<close>

theorem preResolve_failure_never_settles:
  "fst (sample [''preResolve'' \<mapsto> [failing ''H'']] resolveOk) = Inl ''H'' \<and>
   promise (snd (sample [''preResolve'' \<mapsto> [failing ''H'']] resolveOk)) = Pending \<and>
   labels (snd (sample [''preResolve'' \<mapsto> [failing ''H'']] resolveOk)) =
     [HookCall ''preResolve'' 0 (preRecord ''graphqlRequest'' 1 2 3),
      HookThrow ''preResolve'' 0 ''H'']"
  by (simp add: sample_defs failing_def resolveOk_def preRecord_def)

text \<open>
  C4. A resolver that throws \<open>"E"\<close> and a \<open>resolveError\<close> hook that throws \<open>"H2"\<close>: the hook is
  called with \<open>err = "E"\<close>, and the steps end with its throw. The caller's promise is not
  rejected with \<open>"E"\<close>; it stays pending.
\<close>

theorem resolveError_failure_never_settles:
  "fst (sample [''resolveError'' \<mapsto> [failing ''H2'']] resolveFail) = Inl ''H2'' \<and>
   promise (snd (sample [''resolveError'' \<mapsto> [failing ''H2'']] resolveFail)) = Pending \<and>
   labels (snd (sample [''resolveError'' \<mapsto> [failing ''H2'']] resolveFail)) =
     [SpanStart ''graphqlRequest'', ResolveCall 1 2 3, ResolveThrow ''E'',
      HookCall ''resolveError'' 0 (errorRecord ''graphqlRequest'' 1 2 3 ''E''),
      HookThrow ''resolveError'' 0 ''H2'']"
  by (simp add: sample_defs failing_def resolveFail_def errorRecord_def)

text \<open>
  C10. A resolver that resolves, a \<open>postResolve\<close> hook that throws \<open>"H"\<close> and a \<open>resolveError\<close>
  hook that throws \<open>"H2"\<close>: the \<open>catch\<close> block is entered and its hook is called with
  \<open>err = "H"\<close>, but the span is not ended and the caller's promise is not rejected with
  \<open>"H"\<close>; it stays pending.
\<close>

theorem postResolve_then_resolveError_failure_never_settles:
  "fst (sample [''postResolve'' \<mapsto> [failing ''H''], ''resolveError'' \<mapsto> [failing ''H2'']] resolveOk) =
     Inl ''H2'' \<and>
   promise (snd (sample [''postResolve'' \<mapsto> [failing ''H''], ''resolveError'' \<mapsto> [failing ''H2'']]
      resolveOk)) = Pending \<and>
   labels (snd (sample [''postResolve'' \<mapsto> [failing ''H''], ''resolveError'' \<mapsto> [failing ''H2'']]
      resolveOk)) =
     [SpanStart ''graphqlRequest'', ResolveCall 1 2 3, ResolveReturn ''ok'',
      HookCall ''postResolve'' 0 (postRecord ''graphqlRequest'' 1 2 3 ''ok''),
      HookThrow ''postResolve'' 0 ''H'',
      HookCall ''resolveError'' 0 (errorRecord ''graphqlRequest'' 1 2 3 ''H''),
      HookThrow ''resolveError'' 0 ''H2'']"
  by (simp add: sample_defs failing_def resolveOk_def errorRecord_def postRecord_def)

end
